theory Spec2Isabelle
  imports Main "HOL-Library.AList"
begin

section \<open>Team runtime of oh-my-claude-sisyphus: the model\<close>

text \<open>
  The development embeds \<^verbatim>\<open>src/team/tmux-session.ts\<close> and
  \<^verbatim>\<open>src/team/runtime.ts\<close>. Strings are \<^typ>\<open>string\<close>, counters are
  \<^typ>\<open>nat\<close>, timestamps are milliseconds in \<^typ>\<open>int\<close>. Every \<^verbatim>\<open>throw\<close> and every
  rejected promise is a value \<open>Inl e\<close> of a sum type.
\<close>

subsection \<open>Errors\<close>

type_synonym path = "string list"

datatype error =
    NoValidChars string
  | TooShort string
  | ENOENT path
  | ENOTDIR path
  | EISDIR path
  | EEXIST path
  | TmuxFailed string
  | CliUnavailable string
  | TypeError
  | RangeError

subsection \<open>sanitizeName (tmux-session.ts, lines 44-54)\<close>

text \<open>The character class \<^verbatim>\<open>[a-zA-Z0-9-]\<close> of the regular expression, by character code.\<close>

definition valid_char :: "char \<Rightarrow> bool" where
  "valid_char c =
     (let n = (of_char c :: nat)
      in (97 \<le> n \<and> n \<le> 122) \<or> (65 \<le> n \<and> n \<le> 90) \<or> (48 \<le> n \<and> n \<le> 57) \<or> n = 45)"

definition sanitizeName :: "string \<Rightarrow> error + string" where
  "sanitizeName name =
     (let sanitized = filter valid_char name
      in if length sanitized = 0 then Inl (NoValidChars name)
         else if length sanitized < 2 then Inl (TooShort name)
         else Inr (take 50 sanitized))"

subsection \<open>Phase inference (runtime.ts, lines 207-215)\<close>

record taskCounts =
  pending :: nat
  inProgress :: nat
  completed :: nat
  failed :: nat

definition infer_phase :: "taskCounts \<Rightarrow> string" where
  "infer_phase tc =
     (if inProgress tc = 0 \<and> pending tc > 0 \<and> completed tc = 0 then ''planning''
      else if failed tc > 0 \<and> pending tc = 0 \<and> inProgress tc = 0 then ''fixing''
      else if completed tc > 0 \<and> pending tc = 0 \<and> inProgress tc = 0 \<and> failed tc = 0
        then ''completed''
      else ''executing'')"

subsection \<open>Decimal rendering of numbers\<close>

text \<open>\<^verbatim>\<open>String(n)\<close> and \<^verbatim>\<open>`${n}`\<close> on a non-negative integer.\<close>

definition digit :: "nat \<Rightarrow> char" where
  "digit d = char_of (48 + d)"

fun String :: "nat \<Rightarrow> string" where
  "String n = (if n < 10 then [digit n] else String (n div 10) @ [digit (n mod 10)])"

declare String.simps [simp del]

subsection \<open>Paths: \<^verbatim>\<open>path.join\<close>\<close>

text \<open>
  A path is the list of its segments below the file-system root. \<^verbatim>\<open>path.join\<close>
  concatenates its arguments with \<^verbatim>\<open>/\<close> and normalises: empty and \<^verbatim>\<open>.\<close> segments
  vanish, \<^verbatim>\<open>..\<close> removes the segment before it. Relative paths are read from the
  same root, that is, the process is taken to run in \<^verbatim>\<open>/\<close>.
\<close>

fun split_on :: "char \<Rightarrow> string \<Rightarrow> string list" where
  "split_on d [] = [[]]"
| "split_on d (c # cs) =
     (if c = d then [] # split_on d cs
      else (case split_on d cs of [] \<Rightarrow> [[c]] | s # ss \<Rightarrow> (c # s) # ss))"

definition norm_step :: "path \<Rightarrow> string \<Rightarrow> path" where
  "norm_step acc seg =
     (if seg = [] \<or> seg = ''.'' then acc
      else if seg = ''..'' then butlast acc
      else acc @ [seg])"

definition join :: "path \<Rightarrow> string list \<Rightarrow> path" where
  "join base parts = foldl norm_step base (concat (map (split_on CHR ''/'') parts))"

text \<open>A name that is one path segment: what team names, worker names and task ids are meant to be.\<close>

definition plain :: "string \<Rightarrow> bool" where
  "plain s = (s \<noteq> [] \<and> s \<noteq> ''.'' \<and> s \<noteq> ''..'' \<and> CHR ''/'' \<notin> set s)"

definition is_under :: "path \<Rightarrow> path \<Rightarrow> bool" where
  "is_under d q = (take (length d) q = d)"

subsection \<open>The file system\<close>

text \<open>
  The file system is an association list from paths to nodes; the root \<open>[]\<close> is always
  a directory. The operations fail where Node's fail for the shape of the tree
  (a missing parent, a file where a directory is needed, a directory where a file
  is needed); failures of the medium (permissions, a full disk) are not modelled.
\<close>

datatype node = Dir | File string

type_synonym fs = "(path \<times> node) list"

definition lookup :: "fs \<Rightarrow> path \<Rightarrow> node option" where
  "lookup f p = (if p = [] then Some Dir else map_of f p)"

definition ancestors :: "path \<Rightarrow> path list" where
  "ancestors p = map (\<lambda>n. take n p) [1..<Suc (length p)]"

definition is_file :: "node option \<Rightarrow> bool" where
  "is_file n = (case n of Some (File _) \<Rightarrow> True | _ \<Rightarrow> False)"

text \<open>\<^verbatim>\<open>mkdir(p, { recursive: true })\<close>\<close>

definition mkdir :: "path \<Rightarrow> fs \<Rightarrow> error + fs" where
  "mkdir p f =
     (case filter (\<lambda>q. is_file (lookup f q)) (ancestors p) of
        q # _ \<Rightarrow> Inl (if q = p then EEXIST p else ENOTDIR p)
      | [] \<Rightarrow> Inr (foldl (\<lambda>g q. if lookup g q = None then AList.update q Dir g else g) f
                 (ancestors p)))"

definition parent_check :: "path \<Rightarrow> fs \<Rightarrow> error option" where
  "parent_check p f =
     (if p = [] then Some (EISDIR p)
      else case lookup f (butlast p) of
             None \<Rightarrow> Some (ENOENT p)
           | Some (File _) \<Rightarrow> Some (ENOTDIR p)
           | Some Dir \<Rightarrow> (case lookup f p of Some Dir \<Rightarrow> Some (EISDIR p) | _ \<Rightarrow> None))"

definition writeFile :: "path \<Rightarrow> string \<Rightarrow> fs \<Rightarrow> error + fs" where
  "writeFile p content f =
     (case parent_check p f of
        Some e \<Rightarrow> Inl e
      | None \<Rightarrow> Inr (AList.update p (File content) f))"

definition appendFile :: "path \<Rightarrow> string \<Rightarrow> fs \<Rightarrow> error + fs" where
  "appendFile p content f =
     (case parent_check p f of
        Some e \<Rightarrow> Inl e
      | None \<Rightarrow>
          Inr (AList.update p
                 (File ((case lookup f p of Some (File old) \<Rightarrow> old | _ \<Rightarrow> []) @ content)) f))"

definition readFile :: "path \<Rightarrow> fs \<Rightarrow> error + string" where
  "readFile p f =
     (case lookup f p of
        None \<Rightarrow> Inl (ENOENT p)
      | Some Dir \<Rightarrow> Inl (EISDIR p)
      | Some (File content) \<Rightarrow> Inr content)"

definition readdir :: "path \<Rightarrow> fs \<Rightarrow> error + string list" where
  "readdir p f =
     (case lookup f p of
        None \<Rightarrow> Inl (ENOENT p)
      | Some (File _) \<Rightarrow> Inl (ENOTDIR p)
      | Some Dir \<Rightarrow> Inr (map last (filter (\<lambda>q. q \<noteq> [] \<and> butlast q = p) (map fst f))))"

definition existsSync :: "path \<Rightarrow> fs \<Rightarrow> bool" where
  "existsSync p f = (lookup f p \<noteq> None)"

text \<open>\<^verbatim>\<open>rm(p, { recursive: true, force: true })\<close>: the node and everything below it go.\<close>

definition rm :: "path \<Rightarrow> fs \<Rightarrow> fs" where
  "rm p f = filter (\<lambda>e. \<not> is_under p (fst e)) f"

subsection \<open>JSON values as JavaScript sees them\<close>

datatype json =
    JNull
  | JBool bool
  | JNum int
  | JStr string
  | JArr "json list"
  | JObj "(string \<times> json) list"

text \<open>
  An object is the list of its properties in insertion order, with distinct keys.
  Numbers are integers: no number read here has a fraction.
  \<^verbatim>\<open>v?.k\<close> is \<open>get_prop k v\<close>, with \<open>None\<close> for \<^verbatim>\<open>undefined\<close>; only objects carry the
  keys read here.
\<close>

definition get_prop :: "string \<Rightarrow> json \<Rightarrow> json option" where
  "get_prop k v = (case v of JObj kvs \<Rightarrow> map_of kvs k | _ \<Rightarrow> None)"

definition truthy :: "json \<Rightarrow> bool" where
  "truthy v =
     (case v of JNull \<Rightarrow> False | JBool b \<Rightarrow> b | JNum n \<Rightarrow> n \<noteq> 0 | JStr s \<Rightarrow> s \<noteq> []
      | JArr _ \<Rightarrow> True | JObj _ \<Rightarrow> True)"

subsection \<open>The host: Node built-ins and the modules outside this file\<close>

text \<open>
  \<^verbatim>\<open>JSON.parse\<close> (\<open>None\<close>: it throws), \<^verbatim>\<open>JSON.stringify(v, null, 2)\<close>,
  \<^verbatim>\<open>new Date(v).getTime()\<close> (\<open>None\<close>: NaN), \<^verbatim>\<open>new Date(t).toISOString()\<close>, the
  abstract operation ToLength on values that are not numbers, the environment variables
  SHELL and HOME, and the functions imported from \<^verbatim>\<open>model-contract.js\<close> and
  \<^verbatim>\<open>worker-bootstrap.js\<close> are parameters of the model. \<open>workers\<close> is what the worker
  processes have made of the files when the orchestrator wakes up at a given time.
\<close>

record host =
  JSON_parse :: "string \<Rightarrow> json option"
  JSON_stringify :: "json \<Rightarrow> string"
  Date_getTime :: "json \<Rightarrow> int option"
  toISOString :: "int \<Rightarrow> string"
  ToLength :: "json \<Rightarrow> nat"
  env_SHELL :: "string option"
  env_HOME :: "string option"
  validateCliAvailable :: "string \<Rightarrow> error option"
  getWorkerEnv :: "string \<Rightarrow> string \<Rightarrow> string \<Rightarrow> (string \<times> string) list"
  buildWorkerCommand :: "string \<Rightarrow> string \<Rightarrow> string \<Rightarrow> string \<Rightarrow> string"
  generateWorkerOverlay :: "string \<Rightarrow> string \<Rightarrow> string \<Rightarrow> (string \<times> string \<times> string) list \<Rightarrow> string"
  workers :: "int \<Rightarrow> fs \<Rightarrow> fs"

subsection \<open>tmux\<close>

text \<open>
  The tmux server: \<open>sessions\<close> maps each session name to its active pane, \<open>panes\<close>
  lists every pane with its session, in pane order (each session has one window).
  Pane identifiers are \<^verbatim>\<open>%0\<close>, \<^verbatim>\<open>%1\<close>, ... from a counter that never goes back.
  \<open>room\<close> is the number of splits the windows still have space for
  (\<^verbatim>\<open>split-window\<close> fails with "no space for new pane" past it), \<open>dead\<close> the panes
  whose process has exited, \<open>typed\<close> what \<^verbatim>\<open>send-keys\<close> has sent to each pane.
\<close>

datatype keys = Lit string | KeyEnter

record tmux =
  sessions :: "(string \<times> string) list"
  panes :: "(string \<times> string) list"
  dead :: "string list"
  next_pane :: nat
  room :: nat
  typed :: "(string \<times> keys) list"

definition pane_name :: "nat \<Rightarrow> string" where
  "pane_name k = CHR ''%'' # String k"

text \<open>
  A target \<^verbatim>\<open>-t\<close> that starts with \<^verbatim>\<open>%\<close> is a pane identifier; any other target is a
  session name and means that session's active pane. The result is the session and
  the pane.
\<close>

definition resolve :: "tmux \<Rightarrow> string \<Rightarrow> (string \<times> string) option" where
  "resolve t target =
     (if target \<noteq> [] \<and> hd target = CHR ''%''
      then (case map_of (panes t) target of Some sess \<Rightarrow> Some (sess, target) | None \<Rightarrow> None)
      else (case map_of (sessions t) target of Some act \<Rightarrow> Some (target, act) | None \<Rightarrow> None))"

definition new_session :: "string \<Rightarrow> tmux \<Rightarrow> error + tmux" where
  "new_session name t =
     (if map_of (sessions t) name \<noteq> None then Inl (TmuxFailed ''new-session'')
      else Inr (t\<lparr>sessions := AList.update name (pane_name (next_pane t)) (sessions t),
                  panes := panes t @ [(pane_name (next_pane t), name)],
                  next_pane := Suc (next_pane t)\<rparr>))"

fun insert_after :: "string \<Rightarrow> (string \<times> string) \<Rightarrow> (string \<times> string) list \<Rightarrow> (string \<times> string) list" where
  "insert_after p n [] = [n]"
| "insert_after p n (q # qs) = (if fst q = p then q # n # qs else q # insert_after p n qs)"

definition split_window :: "string \<Rightarrow> tmux \<Rightarrow> error + tmux" where
  "split_window target t =
     (case resolve t target of
        None \<Rightarrow> Inl (TmuxFailed ''split-window'')
      | Some (sess, p) \<Rightarrow>
          if room t = 0 then Inl (TmuxFailed ''split-window'')
          else Inr (t\<lparr>sessions := AList.update sess (pane_name (next_pane t)) (sessions t),
                      panes := insert_after p (pane_name (next_pane t), sess) (panes t),
                      next_pane := Suc (next_pane t),
                      room := room t - 1\<rparr>))"

definition list_panes :: "string \<Rightarrow> tmux \<Rightarrow> error + string list" where
  "list_panes target t =
     (case resolve t target of
        None \<Rightarrow> Inl (TmuxFailed ''list-panes'')
      | Some (sess, p) \<Rightarrow> Inr (map fst (filter (\<lambda>e. snd e = sess) (panes t))))"

definition display_pane_id :: "string \<Rightarrow> tmux \<Rightarrow> error + string" where
  "display_pane_id target t =
     (case resolve t target of
        None \<Rightarrow> Inl (TmuxFailed ''display-message'')
      | Some (sess, p) \<Rightarrow> Inr p)"

definition display_pane_dead :: "string \<Rightarrow> tmux \<Rightarrow> error + string" where
  "display_pane_dead target t =
     (case resolve t target of
        None \<Rightarrow> Inl (TmuxFailed ''display-message'')
      | Some (sess, p) \<Rightarrow> Inr (if p \<in> set (dead t) then ''1'' else ''0''))"

definition send_keys :: "string \<Rightarrow> keys \<Rightarrow> tmux \<Rightarrow> error + tmux" where
  "send_keys target k t =
     (case resolve t target of
        None \<Rightarrow> Inl (TmuxFailed ''send-keys'')
      | Some (sess, p) \<Rightarrow> Inr (t\<lparr>typed := typed t @ [(p, k)]\<rparr>))"

definition has_session :: "string \<Rightarrow> tmux \<Rightarrow> bool" where
  "has_session target t = (resolve t target \<noteq> None)"

definition kill_session :: "string \<Rightarrow> tmux \<Rightarrow> error + tmux" where
  "kill_session target t =
     (case resolve t target of
        None \<Rightarrow> Inl (TmuxFailed ''kill-session'')
      | Some (sess, p) \<Rightarrow>
          Inr (t\<lparr>sessions := AList.delete sess (sessions t),
                 panes := filter (\<lambda>e. snd e \<noteq> sess) (panes t)\<rparr>))"

subsection \<open>The world and effectful computations\<close>

record world =
  files :: fs
  mux :: tmux
  clock :: int
  console :: "string list"

type_synonym 'a io = "world \<Rightarrow> (error + 'a) \<times> world"

definition ret :: "'a \<Rightarrow> 'a io" where
  "ret x w = (Inr x, w)"

definition throw :: "error \<Rightarrow> 'a io" where
  "throw e w = (Inl e, w)"

definition bind :: "'a io \<Rightarrow> ('a \<Rightarrow> 'b io) \<Rightarrow> 'b io" where
  "bind m f w = (case m w of (Inl e, w') \<Rightarrow> (Inl e, w') | (Inr x, w') \<Rightarrow> f x w')"

definition on_files :: "(fs \<Rightarrow> error + fs) \<Rightarrow> unit io" where
  "on_files op w = (case op (files w) of Inl e \<Rightarrow> (Inl e, w) | Inr f \<Rightarrow> (Inr (), w\<lparr>files := f\<rparr>))"

definition on_mux :: "(tmux \<Rightarrow> error + tmux) \<Rightarrow> unit io" where
  "on_mux op w = (case op (mux w) of Inl e \<Rightarrow> (Inl e, w) | Inr t \<Rightarrow> (Inr (), w\<lparr>mux := t\<rparr>))"

definition ask_mux :: "(tmux \<Rightarrow> error + 'a) \<Rightarrow> 'a io" where
  "ask_mux q w = (case q (mux w) of Inl e \<Rightarrow> (Inl e, w) | Inr x \<Rightarrow> (Inr x, w))"

definition warn :: "string \<Rightarrow> world \<Rightarrow> world" where
  "warn msg w = w\<lparr>console := console w @ [msg]\<rparr>"

text \<open>
  \<^verbatim>\<open>await new Promise(r => setTimeout(r, ms))\<close>: the clock advances and the workers
  have had their turn on the files.
\<close>

definition sleep :: "host \<Rightarrow> int \<Rightarrow> world \<Rightarrow> world" where
  "sleep H ms w = w\<lparr>clock := clock w + ms, files := workers H (clock w + ms) (files w)\<rparr>"

subsection \<open>tmux-session.ts\<close>

text \<open>\<^verbatim>\<open>allPanes.find(p => p !== leaderPaneId && !workerPaneIds.includes(p))\<close>\<close>

definition discover :: "string \<Rightarrow> string list \<Rightarrow> string list \<Rightarrow> string option" where
  "discover leaderPaneId workerPaneIds allPanes =
     List.find (\<lambda>p. p \<noteq> leaderPaneId \<and> p \<notin> set workerPaneIds) allPanes"

text \<open>
  The loop of \<^verbatim>\<open>createTeamSession\<close> (lines 168-186), \<open>i\<close> the loop index and \<open>k\<close> the
  iterations left. \<^verbatim>\<open>workerPaneIds[i - 1]\<close> outside the array is \<^verbatim>\<open>undefined\<close>, which
  \<^verbatim>\<open>execFile\<close> rejects with a TypeError.
\<close>

fun split_loop :: "string \<Rightarrow> string \<Rightarrow> nat \<Rightarrow> nat \<Rightarrow> string list \<Rightarrow> string list io" where
  "split_loop sessionName leaderPaneId i 0 workerPaneIds = ret workerPaneIds"
| "split_loop sessionName leaderPaneId i (Suc k) workerPaneIds =
     bind (if i = 0 then ret sessionName
           else if i - 1 < length workerPaneIds then ret (workerPaneIds ! (i - 1))
           else throw TypeError)
       (\<lambda>splitTarget.
     bind (on_mux (split_window splitTarget)) (\<lambda>_.
     bind (ask_mux (list_panes sessionName)) (\<lambda>out.
       (case discover leaderPaneId workerPaneIds (filter (\<lambda>p. p \<noteq> []) out) of
          Some newPaneId \<Rightarrow>
            if newPaneId \<noteq> []
            then split_loop sessionName leaderPaneId (Suc i) k (workerPaneIds @ [newPaneId])
            else split_loop sessionName leaderPaneId (Suc i) k workerPaneIds
        | None \<Rightarrow> split_loop sessionName leaderPaneId (Suc i) k workerPaneIds))))"

record TeamSession =
  sessionName :: string
  leaderPaneId :: string
  workerPaneIds :: "string list"

text \<open>
  \<^verbatim>\<open>createTeamSession\<close> (lines 142-196). \<^verbatim>\<open>select-layout\<close> changes no identifier and
  its failure is swallowed, so it leaves no trace in the model.
\<close>

definition createTeamSession :: "string \<Rightarrow> nat \<Rightarrow> string \<Rightarrow> TeamSession io" where
  "createTeamSession teamName workerCount cwd =
     (case sanitizeName teamName of
        Inl e \<Rightarrow> throw e
      | Inr clean \<Rightarrow>
          (let sName = ''omc-team-'' @ clean in
           bind (on_mux (new_session sName)) (\<lambda>_.
           bind (ask_mux (display_pane_id sName)) (\<lambda>leader.
           bind (split_loop sName leader 0 workerCount []) (\<lambda>ws.
             ret \<lparr>sessionName = sName, leaderPaneId = leader, workerPaneIds = ws\<rparr>)))))"

record WorkerPaneConfig =
  wp_teamName :: string
  wp_workerName :: string
  wp_envVars :: "(string \<times> string) list"
  wp_launchCmd :: string
  wp_cwd :: string

fun intercalate :: "string \<Rightarrow> string list \<Rightarrow> string" where
  "intercalate sep [] = []"
| "intercalate sep [x] = x"
| "intercalate sep (x # y # ys) = x @ sep @ intercalate sep (y # ys)"

text \<open>\<^verbatim>\<open>spawnWorkerInPane\<close> (lines 202-229); \<^verbatim>\<open>a || b\<close> takes \<open>b\<close> for a missing or empty \<open>a\<close>.\<close>

definition startCmd :: "host \<Rightarrow> WorkerPaneConfig \<Rightarrow> string" where
  "startCmd H config =
     (let envString = intercalate '' '' (map (\<lambda>kv. fst kv @ ''='' @ snd kv) (wp_envVars config));
          shell = (case env_SHELL H of None \<Rightarrow> ''/bin/bash''
                   | Some s \<Rightarrow> if s = [] then ''/bin/bash'' else s);
          shellName = (if last (split_on CHR ''/'' shell) = [] then ''bash''
                       else last (split_on CHR ''/'' shell));
          rcFile = (case env_HOME H of None \<Rightarrow> []
                    | Some h \<Rightarrow> if h = [] then [] else h @ ''/.'' @ shellName @ ''rc'');
          sourceCmd = (if rcFile = [] then []
                       else ''[ -f \"'' @ rcFile @ ''\" ] && source \"'' @ rcFile @ ''\"; '')
      in ''env '' @ envString @ '' '' @ shell @ '' -c \"'' @ sourceCmd @ ''exec ''
           @ wp_launchCmd config @ ''\"'')"

definition spawnWorkerInPane :: "host \<Rightarrow> string \<Rightarrow> string \<Rightarrow> WorkerPaneConfig \<Rightarrow> unit io" where
  "spawnWorkerInPane H sName paneId config =
     bind (on_mux (send_keys paneId (Lit (startCmd H config)))) (\<lambda>_.
       on_mux (send_keys paneId KeyEnter))"

text \<open>\<^verbatim>\<open>sendToWorker\<close> (lines 237-256): it returns a boolean and never throws.\<close>

definition sendToWorker :: "string \<Rightarrow> string \<Rightarrow> string \<Rightarrow> world \<Rightarrow> bool \<times> world" where
  "sendToWorker sName paneId message w =
     (let w1 = (if length message > 200
                then warn ''[tmux-session] sendToWorker: message truncated to 200 chars'' w
                else w);
          msg = (if length message > 200 then take 200 message else message)
      in case on_mux (send_keys paneId (Lit msg)) w1 of
           (Inl e, w2) \<Rightarrow> (False, w2)
         | (Inr u, w2) \<Rightarrow>
             (case on_mux (send_keys paneId KeyEnter) w2 of
                (Inl e, w3) \<Rightarrow> (False, w3)
              | (Inr u', w3) \<Rightarrow> (True, w3)))"

text \<open>\<^verbatim>\<open>waitForWorkerReady\<close> (lines 263-284): the loop, then the function.\<close>

function ready_loop :: "host \<Rightarrow> path \<Rightarrow> int \<Rightarrow> world \<Rightarrow> bool \<times> world" where
  "ready_loop H sentinelPath deadline w =
     (if clock w < deadline
      then (if existsSync sentinelPath (files w) then (True, w)
            else ready_loop H sentinelPath deadline (sleep H 500 w))
      else (False, w))"
  by pat_completeness auto
termination
  by (relation "measure (\<lambda>(H, p, deadline, w). nat (deadline - clock w))")
     (auto simp: sleep_def)

declare ready_loop.simps [simp del]

definition waitForWorkerReady ::
  "host \<Rightarrow> string \<Rightarrow> string \<Rightarrow> string \<Rightarrow> int \<Rightarrow> world \<Rightarrow> bool \<times> world" where
  "waitForWorkerReady H teamName wName cwd timeoutMs w =
     ready_loop H
       (join [] [cwd, ''.omc/state/team/'' @ teamName @ ''/workers/'' @ wName @ ''/.ready''])
       (clock w + timeoutMs) w"

text \<open>\<^verbatim>\<open>isWorkerAlive\<close> (lines 290-302): a failed query counts as not alive.\<close>

definition isWorkerAlive :: "string \<Rightarrow> world \<Rightarrow> bool" where
  "isWorkerAlive paneId w =
     (case display_pane_dead paneId (mux w) of Inl e \<Rightarrow> False | Inr out \<Rightarrow> out = ''0'')"

text \<open>\<^verbatim>\<open>killTeamSession\<close> (lines 307-316): a failed kill is swallowed.\<close>

definition killTeamSession :: "string \<Rightarrow> world \<Rightarrow> world" where
  "killTeamSession sName w =
     (case kill_session sName (mux w) of Inl e \<Rightarrow> w | Inr t \<Rightarrow> w\<lparr>mux := t\<rparr>)"

subsection \<open>runtime.ts: data\<close>

record taskDef =
  subject :: string
  description :: string

record TeamConfig =
  teamName :: string
  workerCount :: nat
  agentTypes :: "string list"
  tasks :: "taskDef list"
  cwd :: string

text \<open>The runtime carries the configuration as the JSON value it is persisted as.\<close>

record TeamRuntime =
  rt_teamName :: string
  rt_sessionName :: string
  rt_config :: json
  rt_workerNames :: "string list"
  rt_workerPaneIds :: "string list"
  rt_cwd :: string

record WorkerStatus =
  ws_workerName :: string
  alive :: bool
  paneId :: string
  currentTaskId :: "json option"
  lastHeartbeat :: "json option"
  stalled :: bool

record TeamSnapshot =
  sn_teamName :: string
  sn_phase :: string
  sn_workers :: "WorkerStatus list"
  sn_taskCounts :: taskCounts
  sn_deadWorkers :: "string list"

definition config_json :: "TeamConfig \<Rightarrow> json" where
  "config_json c =
     JObj [(''teamName'', JStr (teamName c)),
           (''workerCount'', JNum (int (workerCount c))),
           (''agentTypes'', JArr (map JStr (agentTypes c))),
           (''tasks'', JArr (map (\<lambda>t. JObj [(''subject'', JStr (subject t)),
                                               (''description'', JStr (description t))])
                              (tasks c))),
           (''cwd'', JStr (cwd c))]"

subsection \<open>runtime.ts: helpers (lines 49-69)\<close>

definition workerName :: "nat \<Rightarrow> string" where
  "workerName index = ''worker-'' @ String (index + 1)"

definition stateRoot :: "string \<Rightarrow> string \<Rightarrow> path" where
  "stateRoot cwd' teamName' = join [] [cwd', ''.omc/state/team/'' @ teamName']"

definition writeJson :: "host \<Rightarrow> path \<Rightarrow> json \<Rightarrow> unit io" where
  "writeJson H filePath data =
     bind (on_files (mkdir (join filePath [''..'']))) (\<lambda>_.
       on_files (writeFile filePath (JSON_stringify H data)))"

text \<open>\<^verbatim>\<open>readJsonSafe\<close> returns \<^verbatim>\<open>null\<close> for a file it cannot read or parse.\<close>

definition readJsonSafe :: "host \<Rightarrow> path \<Rightarrow> world \<Rightarrow> json" where
  "readJsonSafe H filePath w =
     (case readFile filePath (files w) of
        Inl e \<Rightarrow> JNull
      | Inr content \<Rightarrow> (case JSON_parse H content of None \<Rightarrow> JNull | Some v \<Rightarrow> v))"

subsection \<open>runtime.ts: startTeam (lines 74-153)\<close>

text \<open>\<^verbatim>\<open>[...new Set(agentTypes)]\<close>: the first occurrence of each element, in order.\<close>

definition dedup :: "string list \<Rightarrow> string list" where
  "dedup xs = fold (\<lambda>x acc. if x \<in> set acc then acc else acc @ [x]) xs []"

fun validate_all :: "host \<Rightarrow> string list \<Rightarrow> error option" where
  "validate_all H [] = None"
| "validate_all H (a # as) =
     (case validateCliAvailable H a of Some e \<Rightarrow> Some e | None \<Rightarrow> validate_all H as)"

definition task_json :: "host \<Rightarrow> int \<Rightarrow> string \<Rightarrow> taskDef \<Rightarrow> json" where
  "task_json H now taskId t =
     JObj [(''id'', JStr taskId),
           (''subject'', JStr (subject t)),
           (''description'', JStr (description t)),
           (''status'', JStr ''pending''),
           (''owner'', JNull),
           (''result'', JNull),
           (''createdAt'', JStr (toISOString H now))]"

fun write_tasks :: "host \<Rightarrow> path \<Rightarrow> nat \<Rightarrow> taskDef list \<Rightarrow> unit io" where
  "write_tasks H root i [] = ret ()"
| "write_tasks H root i (t # ts) =
     bind (\<lambda>w. writeJson H (join root [''tasks'', String (i + 1) @ ''.json''])
                  (task_json H (clock w) (String (i + 1)) t) w)
       (\<lambda>_. write_tasks H root (Suc i) ts)"

text \<open>\<^verbatim>\<open>agentTypes[i] ?? agentTypes[0] ?? 'claude'\<close>\<close>

definition agent_at :: "string list \<Rightarrow> nat \<Rightarrow> string" where
  "agent_at ats i =
     (if i < length ats then ats ! i else if ats \<noteq> [] then hd ats else ''claude'')"

text \<open>
  Modelled from the spec: \<^verbatim>\<open>ensureWorkerStateDir\<close>, \<^verbatim>\<open>writeWorkerOverlay\<close> and
  \<^verbatim>\<open>composeInitialInbox\<close> of \<^verbatim>\<open>worker-bootstrap.js\<close>, which is not among the sources.
  The spec (4.4, step 4): "create its private state directory, render+write its
  role/context overlay document, seed its inbox with a welcome message". The directory
  is \<^verbatim>\<open>workers/{name}\<close>, the inbox \<^verbatim>\<open>inbox.md\<close> in it (spec 6), the overlay
  \<^verbatim>\<open>AGENTS.md\<close> in it (the welcome message of \<^verbatim>\<open>startTeam\<close> names it).
\<close>

definition ensureWorkerStateDir :: "string \<Rightarrow> string \<Rightarrow> string \<Rightarrow> unit io" where
  "ensureWorkerStateDir teamName' wName cwd' =
     on_files (mkdir (join (stateRoot cwd' teamName') [''workers'', wName]))"

definition task_ids :: "taskDef list \<Rightarrow> (string \<times> string \<times> string) list" where
  "task_ids ts = map (\<lambda>(idx, t). (String (idx + 1), subject t, description t)) (enumerate 0 ts)"

definition writeWorkerOverlay ::
  "host \<Rightarrow> string \<Rightarrow> string \<Rightarrow> string \<Rightarrow> (string \<times> string \<times> string) list \<Rightarrow> string \<Rightarrow> unit io" where
  "writeWorkerOverlay H teamName' wName agentType ts cwd' =
     on_files (writeFile (join (stateRoot cwd' teamName') [''workers'', wName, ''AGENTS.md''])
                 (generateWorkerOverlay H teamName' wName agentType ts))"

definition composeInitialInbox :: "string \<Rightarrow> string \<Rightarrow> string \<Rightarrow> string \<Rightarrow> unit io" where
  "composeInitialInbox teamName' wName content cwd' =
     on_files (writeFile (join (stateRoot cwd' teamName') [''workers'', wName, ''inbox.md''])
                 content)"

definition welcome_msg :: "string \<Rightarrow> string \<Rightarrow> string" where
  "welcome_msg teamName' wName =
     ''# Welcome, '' @ wName @ [CHR 0x0A, CHR 0x0A]
       @ ''Read your AGENTS.md overlay at .omc/state/team/'' @ teamName' @ ''/workers/''
       @ wName @ ''/AGENTS.md'' @ [CHR 0x0A, CHR 0x0A]
       @ ''Write your ready sentinel first, then claim tasks from .omc/state/team/''
       @ teamName' @ ''/tasks/''"

fun setup_workers :: "host \<Rightarrow> TeamConfig \<Rightarrow> nat \<Rightarrow> nat \<Rightarrow> string list \<Rightarrow> string list io" where
  "setup_workers H c i 0 names = ret names"
| "setup_workers H c i (Suc k) names =
     (let wName = workerName i; agentType = agent_at (agentTypes c) i in
      bind (ensureWorkerStateDir (teamName c) wName (cwd c)) (\<lambda>_.
      bind (writeWorkerOverlay H (teamName c) wName agentType (task_ids (tasks c)) (cwd c)) (\<lambda>_.
      bind (composeInitialInbox (teamName c) wName (welcome_msg (teamName c) wName) (cwd c)) (\<lambda>_.
        setup_workers H c (Suc i) k (names @ [wName])))))"

text \<open>
  The launch loop (lines 125-133). \<^verbatim>\<open>workerNames[i]\<close> is in range;
  \<^verbatim>\<open>session.workerPaneIds[i]\<close> out of range is \<^verbatim>\<open>undefined\<close>, which \<^verbatim>\<open>execFile\<close>
  rejects with a TypeError.
\<close>

fun spawn_workers :: "host \<Rightarrow> TeamConfig \<Rightarrow> TeamSession \<Rightarrow> nat \<Rightarrow> nat \<Rightarrow> unit io" where
  "spawn_workers H c session i 0 = ret ()"
| "spawn_workers H c session i (Suc k) =
     (let wName = workerName i; agentType = agent_at (agentTypes c) i in
      if i < length (workerPaneIds session)
      then bind (spawnWorkerInPane H (sessionName session) (workerPaneIds session ! i)
                   \<lparr>wp_teamName = teamName c, wp_workerName = wName,
                    wp_envVars = getWorkerEnv H (teamName c) wName agentType,
                    wp_launchCmd = buildWorkerCommand H agentType (teamName c) wName (cwd c),
                    wp_cwd = cwd c\<rparr>)
             (\<lambda>_. spawn_workers H c session (Suc i) k)
      else throw TypeError)"

definition sentinel :: "string \<Rightarrow> string \<Rightarrow> string \<Rightarrow> path" where
  "sentinel cwd' teamName' wName =
     join [] [cwd', ''.omc/state/team/'' @ teamName' @ ''/workers/'' @ wName @ ''/.ready'']"

text \<open>
  \<^verbatim>\<open>Promise.all(workerNames.map(w => waitForWorkerReady(..., 30_000)))\<close>: the waits
  start at the same instant and poll in step. At each tick the workers still waiting
  look for their sentinel; those that find it are done, the others sleep 500 ms
  together. The result is the list of workers that were still waiting at the deadline.
\<close>

function wait_all :: "host \<Rightarrow> string \<Rightarrow> string \<Rightarrow> int \<Rightarrow> string list \<Rightarrow> world \<Rightarrow> string list \<times> world" where
  "wait_all H teamName' cwd' deadline waiting w =
     (if clock w < deadline
      then (let still = filter (\<lambda>wName. \<not> existsSync (sentinel cwd' teamName' wName) (files w))
                          waiting
            in if still = [] then ([], w)
               else wait_all H teamName' cwd' deadline still (sleep H 500 w))
      else (waiting, w))"
  by pat_completeness auto
termination
  by (relation "measure (\<lambda>(H, t, c, deadline, ws, w). nat (deadline - clock w))")
     (auto simp: sleep_def)

declare wait_all.simps [simp del]

definition startTeam :: "host \<Rightarrow> TeamConfig \<Rightarrow> TeamRuntime io" where
  "startTeam H c =
     (case validate_all H (dedup (agentTypes c)) of
        Some e \<Rightarrow> throw e
      | None \<Rightarrow>
          (let root = stateRoot (cwd c) (teamName c) in
           bind (on_files (mkdir (join root [''tasks'']))) (\<lambda>_.
           bind (on_files (mkdir (join root [''mailbox'']))) (\<lambda>_.
           bind (writeJson H (join root [''config.json'']) (config_json c)) (\<lambda>_.
           bind (write_tasks H root 0 (tasks c)) (\<lambda>_.
           bind (setup_workers H c 0 (workerCount c) []) (\<lambda>workerNames.
           bind (createTeamSession (teamName c) (workerCount c) (cwd c)) (\<lambda>session.
           bind (spawn_workers H c session 0 (workerCount c)) (\<lambda>_.
           (\<lambda>w. let (notReady, w1) =
                        wait_all H (teamName c) (cwd c) (clock w + 30000) workerNames w;
                      w2 = (if length notReady > 0
                            then warn (''[runtime] Workers not ready within 30s: ''
                                         @ intercalate '', '' notReady) w1
                            else w1)
                  in (Inr \<lparr>rt_teamName = teamName c,
                             rt_sessionName = sessionName session,
                             rt_config = config_json c,
                             rt_workerNames = workerNames,
                             rt_workerPaneIds = workerPaneIds session,
                             rt_cwd = cwd c\<rparr>, w2)))))))))))"

subsection \<open>runtime.ts: monitorTeam (lines 158-218)\<close>

definition endsWith :: "string \<Rightarrow> string \<Rightarrow> bool" where
  "endsWith suffix s =
     (length suffix \<le> length s \<and> drop (length s - length suffix) s = suffix)"

text \<open>The chain of \<^verbatim>\<open>task?.status === ...\<close> tests (lines 168-171).\<close>

definition count_task :: "json \<Rightarrow> taskCounts \<Rightarrow> taskCounts" where
  "count_task task tc =
     (if get_prop ''status'' task = Some (JStr ''pending'') then tc\<lparr>pending := pending tc + 1\<rparr>
      else if get_prop ''status'' task = Some (JStr ''in_progress'')
        then tc\<lparr>inProgress := inProgress tc + 1\<rparr>
      else if get_prop ''status'' task = Some (JStr ''completed'')
        then tc\<lparr>completed := completed tc + 1\<rparr>
      else if get_prop ''status'' task = Some (JStr ''failed'') then tc\<lparr>failed := failed tc + 1\<rparr>
      else tc)"

definition no_tasks :: taskCounts where
  "no_tasks = \<lparr>pending = 0, inProgress = 0, completed = 0, failed = 0\<rparr>"

text \<open>Lines 162-173; a failing \<^verbatim>\<open>readdir\<close> leaves the counts at zero.\<close>

definition scan_tasks :: "host \<Rightarrow> path \<Rightarrow> world \<Rightarrow> taskCounts" where
  "scan_tasks H root w =
     (case readdir (join root [''tasks'']) (files w) of
        Inl e \<Rightarrow> no_tasks
      | Inr taskFiles \<Rightarrow>
          fold (\<lambda>f tc. count_task (readJsonSafe H (join root [''tasks'', f]) w) tc)
            (filter (endsWith ''.json'') taskFiles) no_tasks)"

text \<open>Lines 186-191: \<^verbatim>\<open>if (heartbeat?.updatedAt) { age = now - getTime; stalled = age > 60_000 }\<close>\<close>

definition is_stalled :: "host \<Rightarrow> int \<Rightarrow> json \<Rightarrow> bool" where
  "is_stalled H now heartbeat =
     (case get_prop ''updatedAt'' heartbeat of
        None \<Rightarrow> False
      | Some u \<Rightarrow>
          if truthy u
          then (case Date_getTime H u of None \<Rightarrow> False | Some t \<Rightarrow> now - t > 60000)
          else False)"

definition heartbeatPath :: "path \<Rightarrow> string \<Rightarrow> path" where
  "heartbeatPath root wName = join root [''workers'', wName, ''heartbeat.json'']"

definition worker_status :: "host \<Rightarrow> path \<Rightarrow> nat \<Rightarrow> string \<Rightarrow> world \<Rightarrow> WorkerStatus" where
  "worker_status H root i pane w =
     (let wName = ''worker-'' @ String (i + 1);
          heartbeat = readJsonSafe H (heartbeatPath root wName) w
      in \<lparr>ws_workerName = wName,
          alive = isWorkerAlive pane w,
          paneId = pane,
          currentTaskId = get_prop ''currentTaskId'' heartbeat,
          lastHeartbeat = get_prop ''updatedAt'' heartbeat,
          stalled = is_stalled H (clock w) heartbeat\<rparr>)"

text \<open>The loop of lines 179-205: statuses, dead workers, and a warning per stalled worker.\<close>

fun monitor_workers ::
  "host \<Rightarrow> path \<Rightarrow> nat \<Rightarrow> string list \<Rightarrow> world \<Rightarrow> WorkerStatus list \<times> string list \<times> world" where
  "monitor_workers H root i [] w = ([], [], w)"
| "monitor_workers H root i (pane # rest) w =
     (let status = worker_status H root i pane w;
          w1 = (if stalled status
                then warn (''[runtime] Worker '' @ ws_workerName status
                             @ '' appears stalled (no heartbeat for 60s)'') w
                else w);
          (statuses, deadWorkers, w2) = monitor_workers H root (Suc i) rest w1
      in (status # statuses,
          (if \<not> alive status then ws_workerName status # deadWorkers else deadWorkers),
          w2))"

definition monitorTeam :: "host \<Rightarrow> string \<Rightarrow> string \<Rightarrow> string list \<Rightarrow> world \<Rightarrow> TeamSnapshot \<times> world" where
  "monitorTeam H teamName' cwd' paneIds w =
     (let root = stateRoot cwd' teamName';
          counts = scan_tasks H root w;
          (statuses, deadWorkers, w1) = monitor_workers H root 0 paneIds w
      in (\<lparr>sn_teamName = teamName', sn_phase = infer_phase counts, sn_workers = statuses,
           sn_taskCounts = counts, sn_deadWorkers = deadWorkers\<rparr>, w1))"

subsection \<open>runtime.ts: assignTask (lines 223-252)\<close>

text \<open>
  Lines 235-241. \<^verbatim>\<open>if (task)\<close> skips a falsy value. Setting the three properties
  updates or appends them on an object (\<open>claimed\<close> is the object afterwards), is lost
  on an array when it is serialised, and throws a TypeError on a primitive (the module
  is in strict mode).
\<close>

definition claimed :: "host \<Rightarrow> int \<Rightarrow> string \<Rightarrow> (string \<times> json) list \<Rightarrow> json" where
  "claimed H now targetWorkerName kvs =
     JObj (AList.update ''assignedAt'' (JStr (toISOString H now))
            (AList.update ''status'' (JStr ''in_progress'')
              (AList.update ''owner'' (JStr targetWorkerName) kvs)))"

definition claim_task :: "host \<Rightarrow> path \<Rightarrow> string \<Rightarrow> unit io" where
  "claim_task H taskPath targetWorkerName w =
     (let task = readJsonSafe H taskPath w in
      if truthy task
      then (case task of
              JObj kvs \<Rightarrow> writeJson H taskPath (claimed H (clock w) targetWorkerName kvs) w
            | JArr xs \<Rightarrow> writeJson H taskPath task w
            | _ \<Rightarrow> throw TypeError w)
      else ret () w)"

definition assignment_msg :: "string \<Rightarrow> string \<Rightarrow> string" where
  "assignment_msg teamName' taskId =
     [CHR 0x0A, CHR 0x0A] @ ''---'' @ [CHR 0x0A] @ ''## New Task Assignment'' @ [CHR 0x0A]
       @ ''Task ID: '' @ taskId @ [CHR 0x0A]
       @ ''Claim and execute task from: .omc/state/team/'' @ teamName' @ ''/tasks/''
       @ taskId @ ''.json'' @ [CHR 0x0A]"

definition assignTask ::
  "host \<Rightarrow> string \<Rightarrow> string \<Rightarrow> string \<Rightarrow> string \<Rightarrow> string \<Rightarrow> string \<Rightarrow> unit io" where
  "assignTask H teamName' taskId targetWorkerName pane sName cwd' =
     (let root = stateRoot cwd' teamName';
          taskPath = join root [''tasks'', taskId @ ''.json''];
          inboxPath = join root [''workers'', targetWorkerName, ''inbox.md'']
      in bind (claim_task H taskPath targetWorkerName) (\<lambda>_.
         bind (on_files (mkdir (join inboxPath [''..'']))) (\<lambda>_.
         bind (on_files (appendFile inboxPath (assignment_msg teamName' taskId))) (\<lambda>_.
           (\<lambda>w. (Inr (), snd (sendToWorker sName pane (''new-task:'' @ taskId) w)))))))"

subsection \<open>runtime.ts: shutdownTeam (lines 257-298)\<close>

text \<open>
  \<^verbatim>\<open>configData?.workerCount ?? 0\<close>, then the length \<^verbatim>\<open>Array.from({ length: ... })\<close>
  makes of it: a number is cut off at zero, any other value goes through ToLength.
\<close>

definition ack_count :: "host \<Rightarrow> json \<Rightarrow> nat" where
  "ack_count H configData =
     (case get_prop ''workerCount'' configData of
        None \<Rightarrow> 0
      | Some JNull \<Rightarrow> 0
      | Some (JNum n) \<Rightarrow> nat n
      | Some v \<Rightarrow> ToLength H v)"

definition ackPath :: "path \<Rightarrow> string \<Rightarrow> path" where
  "ackPath root wName = join root [''workers'', wName, ''shutdown-ack.json'']"

text \<open>
  The polling loop (lines 277-287). The inner \<^verbatim>\<open>for\<close> runs over a copy of
  \<^verbatim>\<open>expectedAcks\<close> and splices each acknowledged name out of the array. When the array
  has become empty the loop condition fails at once, without a sleep.
\<close>

function ack_loop :: "host \<Rightarrow> path \<Rightarrow> int \<Rightarrow> string list \<Rightarrow> world \<Rightarrow> string list \<times> world" where
  "ack_loop H root deadline expectedAcks w =
     (if clock w < deadline \<and> length expectedAcks > 0
      then (let remaining =
                  fold (\<lambda>wName acc. if existsSync (ackPath root wName) (files w)
                                      then remove1 wName acc else acc)
                    expectedAcks expectedAcks
            in if length remaining > 0
               then ack_loop H root deadline remaining (sleep H 500 w)
               else (remaining, w))
      else (expectedAcks, w))"
  by pat_completeness auto
termination
  by (relation "measure (\<lambda>(H, r, deadline, e, w). nat (deadline - clock w))")
     (auto simp: sleep_def)

declare ack_loop.simps [simp del]

text \<open>\<^verbatim>\<open>Array.from\<close> throws a RangeError for a length above \<open>2^32 - 1\<close>.\<close>

definition shutdownTeam :: "host \<Rightarrow> string \<Rightarrow> string \<Rightarrow> string \<Rightarrow> int \<Rightarrow> unit io" where
  "shutdownTeam H teamName' sName cwd' timeoutMs =
     (let root = stateRoot cwd' teamName' in
      bind (\<lambda>w. writeJson H (join root [''shutdown.json''])
                   (JObj [(''requestedAt'', JStr (toISOString H (clock w))),
                          (''teamName'', JStr teamName')]) w)
        (\<lambda>_ w.
           let deadline = clock w + timeoutMs;
               configData = readJsonSafe H (join root [''config.json'']) w;
               n = ack_count H configData
           in if n > 4294967295 then (Inl RangeError, w)
              else (let (unacked, w1) = ack_loop H root deadline (map workerName [0..<n]) w;
                        w2 = killTeamSession sName w1
                    in (Inr (), w2\<lparr>files := rm root (files w2)\<rparr>))))"

subsection \<open>runtime.ts: resumeTeam (lines 303-337)\<close>

definition resumeTeam :: "host \<Rightarrow> string \<Rightarrow> string \<Rightarrow> (TeamRuntime option) io" where
  "resumeTeam H teamName' cwd' w =
     (let root = stateRoot cwd' teamName';
          configData = readJsonSafe H (join root [''config.json'']) w
      in if \<not> truthy configData then (Inr None, w)
         else (let sName = ''omc-team-'' @ teamName' in
               if \<not> has_session sName (mux w) then (Inr None, w)
               else (case list_panes sName (mux w) of
                       Inl e \<Rightarrow> (Inl e, w)
                     | Inr out \<Rightarrow>
                         (let allPanes = filter (\<lambda>p. p \<noteq> []) out;
                              ids = drop 1 allPanes
                          in (Inr (Some \<lparr>rt_teamName = teamName',
                                          rt_sessionName = sName,
                                          rt_config = configData,
                                          rt_workerNames = map workerName [0..<length ids],
                                          rt_workerPaneIds = ids,
                                          rt_cwd = cwd'\<rparr>), w)))))"

section \<open>Notions used in the statements\<close>

text \<open>The sum of the four counts, and the records that the scan counts.\<close>

definition total :: "taskCounts \<Rightarrow> nat" where
  "total tc = pending tc + inProgress tc + completed tc + failed tc"

definition counted :: "json \<Rightarrow> bool" where
  "counted task =
     (get_prop ''status'' task \<in>
        {Some (JStr ''pending''), Some (JStr ''in_progress''), Some (JStr ''completed''),
         Some (JStr ''failed'')})"

text \<open>
  A consistent pane table: every pane belongs to a live session, and the counter is
  ahead of every pane identifier in use. \<open>split_inv\<close> is the state of the loop of
  \<^verbatim>\<open>createTeamSession\<close> after \<open>i\<close> iterations, the session having been created with
  the pane \<open>n0\<close>.
\<close>

definition wf_tmux :: "tmux \<Rightarrow> bool" where
  "wf_tmux t =
     ((\<forall>e \<in> set (panes t). map_of (sessions t) (snd e) \<noteq> None) \<and>
      (\<forall>k. next_pane t \<le> k \<longrightarrow> pane_name k \<notin> fst ` set (panes t)))"

definition split_inv :: "nat \<Rightarrow> string \<Rightarrow> nat \<Rightarrow> string list \<Rightarrow> tmux \<Rightarrow> bool" where
  "split_inv n0 s i ws t =
     (map_of (sessions t) s \<noteq> None \<and>
      next_pane t = n0 + 1 + i \<and>
      ws = map pane_name [n0 + 1 ..< n0 + 1 + i] \<and>
      fst ` {e \<in> set (panes t). snd e = s} = pane_name ` {n0 ..< n0 + 1 + i} \<and>
      (\<forall>j \<in> {n0 ..< n0 + 1 + i}. map_of (panes t) (pane_name j) = Some s) \<and>
      (\<forall>k. n0 + 1 + i \<le> k \<longrightarrow> pane_name k \<notin> fst ` set (panes t)))"

text \<open>
  A file can be created at \<open>p\<close> by \<^verbatim>\<open>mkdir -p\<close> of its directory and a write: no file
  stands where the path needs a directory, and \<open>p\<close> itself is not a directory.
\<close>

definition creatable :: "fs \<Rightarrow> path \<Rightarrow> bool" where
  "creatable f p =
     (p \<noteq> [] \<and> (\<forall>q \<in> set (ancestors (butlast p)). \<not> is_file (lookup f q)) \<and>
      lookup f p \<noteq> Some Dir)"

section \<open>Example hosts and worlds\<close>

text \<open>
  A host for the examples. Its \<^verbatim>\<open>JSON.parse\<close> knows the documents of the examples and
  takes every other text as unparsable; its \<^verbatim>\<open>JSON.stringify\<close> renders the one record
  whose text an example reads back and gives a placeholder for the rest; its dates
  are right at the instants 0 and 60000, the only ones the examples parse or render.
  Only the \<^verbatim>\<open>claude\<close> CLI is installed, and the workers write nothing.
\<close>

definition iso0 :: string where
  "iso0 = ''1970-01-01T00:00:00.000Z''"

definition iso60 :: string where
  "iso60 = ''1970-01-01T00:01:00.000Z''"

definition stale_heartbeat_text :: string where
  "stale_heartbeat_text = ''{\"updatedAt\":\"1970-01-01T00:00:00.000Z\"}''"

definition fresh_heartbeat_text :: string where
  "fresh_heartbeat_text = ''{\"updatedAt\":\"1970-01-01T00:01:00.000Z\"}''"

definition done_task_text :: string where
  "done_task_text = ''{\"id\":\"2\",\"status\":\"completed\",\"owner\":\"worker-1\"}''"

definition done_task :: json where
  "done_task = JObj [(''id'', JStr ''2''), (''status'', JStr ''completed''),
                     (''owner'', JStr ''worker-1'')]"

definition reopened_task :: json where
  "reopened_task = JObj [(''id'', JStr ''2''), (''status'', JStr ''in_progress''),
                         (''owner'', JStr ''worker-2''), (''assignedAt'', JStr iso0)]"

definition reopened_task_text :: string where
  "reopened_task_text =
     ''{'' @ [CHR 0x0A] @ ''  \"id\": \"2\",'' @ [CHR 0x0A]
       @ ''  \"status\": \"in_progress\",'' @ [CHR 0x0A]
       @ ''  \"owner\": \"worker-2\",'' @ [CHR 0x0A]
       @ ''  \"assignedAt\": \"1970-01-01T00:00:00.000Z\"'' @ [CHR 0x0A] @ ''}''"

definition small_config_text :: string where
  "small_config_text = ''{\"teamName\":\"my team\",\"workerCount\":0}''"

definition team_config_text :: string where
  "team_config_text = ''{\"teamName\":\"t1\",\"workerCount\":2}''"

definition demo_parse :: "string \<Rightarrow> json option" where
  "demo_parse s =
     (if s = stale_heartbeat_text then Some (JObj [(''updatedAt'', JStr iso0)])
      else if s = fresh_heartbeat_text then Some (JObj [(''updatedAt'', JStr iso60)])
      else if s = done_task_text then Some done_task
      else if s = reopened_task_text then Some reopened_task
      else if s = small_config_text
        then Some (JObj [(''teamName'', JStr ''my team''), (''workerCount'', JNum 0)])
      else if s = team_config_text
        then Some (JObj [(''teamName'', JStr ''t1''), (''workerCount'', JNum 2)])
      else None)"

definition demo_stringify :: "json \<Rightarrow> string" where
  "demo_stringify v = (if v = reopened_task then reopened_task_text else ''null'')"

definition demo_host :: host where
  "demo_host =
     \<lparr>JSON_parse = demo_parse,
      JSON_stringify = demo_stringify,
      Date_getTime = (\<lambda>v. if v = JStr iso0 then Some 0
                          else if v = JStr iso60 then Some 60000 else None),
      toISOString = (\<lambda>t. if t = 60000 then iso60 else iso0),
      ToLength = (\<lambda>v. 0),
      env_SHELL = Some ''/bin/zsh'',
      env_HOME = Some ''/home/u'',
      validateCliAvailable = (\<lambda>a. if a = ''claude'' then None else Some (CliUnavailable a)),
      getWorkerEnv = (\<lambda>t w a. [(''OMC_TEAM_WORKER'', t @ ''/'' @ w)]),
      buildWorkerCommand = (\<lambda>a t w c. a),
      generateWorkerOverlay = (\<lambda>t w a ts. ''# '' @ w),
      workers = (\<lambda>t f. f)\<rparr>"

definition idle_tmux :: tmux where
  "idle_tmux = \<lparr>sessions = [], panes = [], dead = [], next_pane = 0, room = 10, typed = []\<rparr>"

definition empty_world :: world where
  "empty_world = \<lparr>files = [], mux = idle_tmux, clock = 0, console = []\<rparr>"

definition mixed_config :: TeamConfig where
  "mixed_config =
     \<lparr>teamName = ''t1'', workerCount = 2, agentTypes = [''claude'', ''codex''],
      tasks = [\<lparr>subject = ''a'', description = ''d''\<rparr>], cwd = ''/p''\<rparr>"

text \<open>
  A team \<^verbatim>\<open>t1\<close> under \<^verbatim>\<open>/p\<close> at time 100000: worker-1 reported at time 0, worker-2
  never reported, worker-3 reported at time 60000. Task 1 is a truncated file, task 2
  is completed.
\<close>

definition team_root :: path where
  "team_root = [''p'', ''.omc'', ''state'', ''team'', ''t1'']"

definition team_tmux :: tmux where
  "team_tmux =
     \<lparr>sessions = [(''omc-team-t1'', ''%3'')],
      panes = [(''%0'', ''omc-team-t1''), (''%1'', ''omc-team-t1''),
               (''%2'', ''omc-team-t1''), (''%3'', ''omc-team-t1'')],
      dead = [], next_pane = 4, room = 7, typed = []\<rparr>"

definition watched_world :: world where
  "watched_world =
     \<lparr>files =
        [([''p''], Dir),
         ([''p'', ''.omc''], Dir),
         ([''p'', ''.omc'', ''state''], Dir),
         ([''p'', ''.omc'', ''state'', ''team''], Dir),
         (team_root, Dir),
         (team_root @ [''tasks''], Dir),
         (team_root @ [''tasks'', ''1.json''], File ''{''),
         (team_root @ [''tasks'', ''2.json''], File done_task_text),
         (team_root @ [''workers''], Dir),
         (team_root @ [''workers'', ''worker-1''], Dir),
         (team_root @ [''workers'', ''worker-1'', ''heartbeat.json''], File stale_heartbeat_text),
         (team_root @ [''workers'', ''worker-2''], Dir),
         (team_root @ [''workers'', ''worker-3''], Dir),
         (team_root @ [''workers'', ''worker-3'', ''heartbeat.json''], File fresh_heartbeat_text)],
      mux = team_tmux, clock = 100000, console = []\<rparr>"

text \<open>A world where the configuration of the team \<^verbatim>\<open>my team\<close> is persisted under \<^verbatim>\<open>/p\<close>.\<close>

definition configured_world :: world where
  "configured_world =
     \<lparr>files =
        [([''p''], Dir),
         ([''p'', ''.omc''], Dir),
         ([''p'', ''.omc'', ''state''], Dir),
         ([''p'', ''.omc'', ''state'', ''team''], Dir),
         ([''p'', ''.omc'', ''state'', ''team'', ''my team''], Dir),
         ([''p'', ''.omc'', ''state'', ''team'', ''my team'', ''config.json''],
          File small_config_text)],
      mux = idle_tmux, clock = 0, console = []\<rparr>"

text \<open>
  The team \<^verbatim>\<open>t1\<close> at time 0 with its configuration (two workers) persisted, and a
  world where \<^verbatim>\<open>/p/.omc\<close> is a regular file while the team's session is alive.
\<close>

definition running_world :: world where
  "running_world =
     watched_world\<lparr>files := files watched_world @ [(team_root @ [''config.json''], File team_config_text)],
                   clock := 0\<rparr>"

definition blocked_world :: world where
  "blocked_world =
     \<lparr>files = [([''p''], Dir), ([''p'', ''.omc''], File [])],
      mux = team_tmux, clock = 0, console = []\<rparr>"

section \<open>Properties\<close>

subsection \<open>Decimal rendering is injective and free of slashes\<close>

lemma String_nonempty: "String n \<noteq> []"
  by (subst String.simps) simp

lemma of_char_digit: "d < 10 \<Longrightarrow> (of_char (digit d) :: nat) = 48 + d"
  unfolding digit_def by simp

lemma digit_inj:
  assumes a: "a < 10" and b: "b < 10" and e: "digit a = digit b"
  shows "a = b"
proof -
  have "48 + a = (of_char (digit a) :: nat)"
    using of_char_digit [OF a] by (rule sym)
  also have "\<dots> = of_char (digit b)"
    unfolding e ..
  also have "\<dots> = 48 + b"
    by (rule of_char_digit [OF b])
  finally show ?thesis by (rule add_left_imp_eq)
qed

lemma String_inj: "String n = String m \<Longrightarrow> n = m"
proof (induction n arbitrary: m rule: String.induct)
  case (1 n)
  show ?case
  proof (cases "n < 10")
    case True
    then have sn: "String n = [digit n]" by (subst String.simps) simp
    show ?thesis
    proof (cases "m < 10")
      case m: True
      then have "String m = [digit m]" by (subst String.simps) simp
      with sn "1.prems" have "digit n = digit m" by simp
      with True m show ?thesis by (rule digit_inj)
    next
      case m: False
      then have "String m = String (m div 10) @ [digit (m mod 10)]" by (subst String.simps) simp
      with sn "1.prems" String_nonempty [of "m div 10"] show ?thesis
        by (cases "String (m div 10)") auto
    qed
  next
    case False
    then have sn: "String n = String (n div 10) @ [digit (n mod 10)]" by (subst String.simps) simp
    show ?thesis
    proof (cases "m < 10")
      case m: True
      then have "String m = [digit m]" by (subst String.simps) simp
      with sn "1.prems" String_nonempty [of "n div 10"] show ?thesis
        by (cases "String (n div 10)") auto
    next
      case m: False
      then have sm: "String m = String (m div 10) @ [digit (m mod 10)]" by (subst String.simps) simp
      from sn sm "1.prems" have a: "String (n div 10) = String (m div 10)"
        and b: "digit (n mod 10) = digit (m mod 10)" by auto
      from "1.IH" [OF False a] have d: "n div 10 = m div 10" .
      have "n mod 10 = m mod 10" using b by (intro digit_inj) auto
      with d show ?thesis by (metis div_mult_mod_eq)
    qed
  qed
qed

lemma digit_not_slash: "d < 10 \<Longrightarrow> digit d \<noteq> CHR ''/''"
proof
  assume "d < 10" and "digit d = CHR ''/''"
  then have "(of_char (CHR ''/'') :: nat) = 48 + d"
    using of_char_digit [of d] by simp
  then show False by simp
qed

lemma String_no_slash: "CHR ''/'' \<notin> set (String n)"
proof (induction n rule: String.induct)
  case (1 n)
  show ?case
  proof (cases "n < 10")
    case True
    then show ?thesis using digit_not_slash [of n] by (subst String.simps) auto
  next
    case False
    then show ?thesis using "1.IH" digit_not_slash [of "n mod 10"]
      by (subst String.simps) auto
  qed
qed


subsection \<open>Paths and the file system\<close>

lemma split_on_plain: "d \<notin> set s \<Longrightarrow> split_on d s = [s]"
  by (induction s) auto

lemma join_Nil: "join b [] = b"
  by (simp add: join_def)

lemma join_Cons: "join b (p # ps) = join (join b [p]) ps"
  by (simp add: join_def)

lemma join_plain: "plain s \<Longrightarrow> join b [s] = b @ [s]"
  by (simp add: join_def plain_def split_on_plain norm_step_def)

lemma join_dotdot: "join b [''..''] = butlast b"
  by (simp add: join_def norm_step_def)

lemma plain_json_name: "CHR ''/'' \<notin> set s \<Longrightarrow> plain (s @ ''.json'')"
  by (cases s) (auto simp: plain_def  append_eq_Cons_conv)

lemma stateRoot_plain:
  "plain t \<Longrightarrow> stateRoot c t = join [] [c] @ [''.omc'', ''state'', ''team'', t]"
  by (simp add: stateRoot_def join_def plain_def split_on_plain norm_step_def)

lemma lookup_update:
  "lookup (AList.update p n f) q = (if q = p \<and> q \<noteq> [] then Some n else lookup f q)"
  by (simp add: lookup_def update_conv')

lemma Nil_notin_ancestors: "[] \<notin> set (ancestors p)"
  by (auto simp: ancestors_def)

lemma lookup_mkdir_fold:
  "[] \<notin> set qs \<Longrightarrow>
   lookup (foldl (\<lambda>g a. if lookup g a = None then AList.update a Dir g else g) f qs) q =
     (if q \<in> set qs \<and> lookup f q = None then Some Dir else lookup f q)"
proof (induction qs arbitrary: f)
  case Nil
  then show ?case by simp
next
  case (Cons a qs)
  then show ?case by (auto simp: lookup_update)
qed

lemma lookup_mkdir:
  "mkdir p f = Inr f' \<Longrightarrow>
   lookup f' q = (if q \<in> set (ancestors p) \<and> lookup f q = None then Some Dir else lookup f q)"
  by (auto simp: mkdir_def lookup_mkdir_fold Nil_notin_ancestors split: list.splits)

lemma lookup_writeFile:
  "writeFile p c f = Inr f' \<Longrightarrow> lookup f' q = (if q = p then Some (File c) else lookup f q)"
  by (auto simp: writeFile_def parent_check_def lookup_update split: option.splits if_splits node.splits)

lemma lookup_appendFile:
  "appendFile p c f = Inr f' \<Longrightarrow>
   lookup f' q =
     (if q = p then Some (File ((case lookup f p of Some (File old) \<Rightarrow> old | _ \<Rightarrow> []) @ c))
      else lookup f q)"
  by (auto simp: appendFile_def parent_check_def lookup_update split: option.splits if_splits node.splits)

lemma lookup_rm:
  "q \<noteq> [] \<Longrightarrow> lookup (rm p f) q = (if is_under p q then None else lookup f q)"
  by (induction f) (auto simp: rm_def lookup_def)

subsection \<open>sanitizeName\<close>

lemma sanitizeName_fails_iff:
  "(\<exists>e. sanitizeName name = Inl e) \<longleftrightarrow> length (filter valid_char name) < 2"
  by (auto simp: sanitizeName_def Let_def)

lemma sanitizeName_Inr:
  assumes "sanitizeName name = Inr r"
  shows "r = take 50 (filter valid_char name)" and "2 \<le> length (filter valid_char name)"
  using assms by (auto simp: sanitizeName_def Let_def split: if_splits)

lemma sanitizeName_fixpoint:
  assumes "\<forall>c \<in> set r. valid_char c" and "2 \<le> length r" and "length r \<le> 50"
  shows "sanitizeName r = Inr r"
proof -
  have same: "filter valid_char r = r"
    using assms(1) by (simp add: filter_id_conv)
  have ne: "r \<noteq> []"
    using assms(2) by auto
  show ?thesis
    unfolding sanitizeName_def Let_def same using assms(2,3) ne by simp
qed

text \<open>The class of the regular expression, character by character.\<close>

lemma valid_char_enum:
  "\<forall>c \<in> set (Enum.enum :: char list). valid_char c \<longleftrightarrow>
     c \<in> set ''abcdefghijklmnopqrstuvwxyzABCDEFGHIJKLMNOPQRSTUVWXYZ0123456789-''"
  by code_simp

lemma valid_char_class:
  "valid_char c \<longleftrightarrow> c \<in> set ''abcdefghijklmnopqrstuvwxyzABCDEFGHIJKLMNOPQRSTUVWXYZ0123456789-''"
  using valid_char_enum by (simp add: enum_UNIV)

subsection \<open>startTeam: validation\<close>

lemma set_dedup_fold:
  "set (fold (\<lambda>x acc. if x \<in> set acc then acc else acc @ [x]) xs acc) = set acc \<union> set xs"
  by (induction xs arbitrary: acc) auto

lemma set_dedup: "set (dedup xs) = set xs"
  by (simp add: dedup_def set_dedup_fold)

lemma validate_all_None:
  "validate_all H as = None \<longleftrightarrow> (\<forall>a \<in> set as. validateCliAvailable H a = None)"
  by (induction as) (auto split: option.splits)

lemma validate_all_Some:
  "validate_all H as = Some e \<Longrightarrow> \<exists>a \<in> set as. validateCliAvailable H a = Some e"
  by (induction as) (auto split: option.splits)

subsection \<open>monitorTeam\<close>

lemma worker_status_warn [simp]:
  "worker_status H root i p (warn m w) = worker_status H root i p w"
  by (simp add: worker_status_def warn_def isWorkerAlive_def readJsonSafe_def Let_def)

lemma monitor_workers_frame:
  "monitor_workers H root i ps w = (sts, ds, w') \<Longrightarrow>
   files w' = files w \<and> mux w' = mux w \<and> clock w' = clock w"
proof (induction ps arbitrary: i w sts ds w')
  case Nil
  then show ?case by simp
next
  case (Cons p ps)
  obtain sts1 ds1 w1 where rec:
    "monitor_workers H root (Suc i)  ps
       (if stalled (worker_status H root i p w)
        then warn (''[runtime] Worker '' @ ws_workerName (worker_status H root i p w)
                     @ '' appears stalled (no heartbeat for 60s)'') w
        else w) = (sts1, ds1, w1)"
    by (metis prod_cases3)
  from Cons.prems rec have w': "w' = w1"
    by (simp add: Let_def)
  from Cons.IH [OF rec] w' show ?case
    by (simp add: warn_def split: if_splits)
qed

lemma monitor_workers_statuses:
  "monitor_workers H root i ps w = (sts, ds, w') \<Longrightarrow>
   length sts = length ps \<and> (\<forall>j < length ps. sts ! j = worker_status H root (i + j) (ps ! j) w)"
proof (induction ps arbitrary: i w sts ds w')
  case Nil
  then show ?case by simp
next
  case (Cons p ps)
  let ?w1 = "if stalled (worker_status H root i p w)
        then warn (''[runtime] Worker '' @ ws_workerName (worker_status H root i p w)
                     @ '' appears stalled (no heartbeat for 60s)'') w
        else w"
  obtain sts1 ds1 w1 where rec: "monitor_workers H root (Suc i) ps ?w1 = (sts1, ds1, w1)"
    by (metis prod_cases3)
  from Cons.prems rec have sts: "sts = worker_status H root i p w # sts1"
    by (simp add: Let_def)
  have same: "worker_status H root k q ?w1 = worker_status H root k q w" for k q
    by simp
  from Cons.IH [OF rec] have len: "length sts1 = length ps"
    and nth: "\<forall>j < length ps. sts1 ! j = worker_status H root (Suc i + j) (ps ! j) w"
    by (simp_all add: same)
  show ?case
  proof (intro conjI allI impI)
    show "length sts = length (p # ps)" using sts len by simp
  next
    fix j assume "j < length (p # ps)"
    then show "sts ! j = worker_status H root (i + j) ((p # ps) ! j) w"
      using sts nth by (cases j) simp_all
  qed
qed

lemma monitorTeam_worker:
  assumes "i < length paneIds"
  shows "sn_workers (fst (monitorTeam H team c paneIds w)) ! i =
           worker_status H (stateRoot c team) i (paneIds ! i) w"
proof -
  obtain sts ds w' where m: "monitor_workers H (stateRoot c team) 0 paneIds w = (sts, ds, w')"
    by (metis prod_cases3)
  from monitor_workers_statuses [OF m] assms
  have "sts ! i = worker_status H (stateRoot c team) i (paneIds ! i) w" by simp
  with m show ?thesis by (simp add: monitorTeam_def Let_def)
qed

lemma monitorTeam_files:
  "files (snd (monitorTeam H team c paneIds w)) = files w"
proof -
  obtain sts ds w' where m: "monitor_workers H (stateRoot c team) 0 paneIds w = (sts, ds, w')"
    by (metis prod_cases3)
  from monitor_workers_frame [OF m] m show ?thesis
    by (simp add: monitorTeam_def Let_def)
qed

lemma stalled_worker_status:
  "stalled (worker_status H root i p w) =
     is_stalled H (clock w) (readJsonSafe H (heartbeatPath root (workerName i)) w)"
  by (simp add: worker_status_def workerName_def Let_def)

lemma readJsonSafe_missing:
  "lookup (files w) p = None \<Longrightarrow> readJsonSafe H p w = JNull"
  by (simp add: readJsonSafe_def readFile_def)

subsection \<open>Task counts\<close>

lemma total_count_task: "total (count_task task tc) = total tc + (if counted task then 1 else 0)"
  by (simp add: count_task_def total_def counted_def)

lemma total_fold_count:
  "total (fold (\<lambda>f tc. count_task (g f) tc) fs tc) = total tc + length (filter (\<lambda>f. counted (g f)) fs)"
  by (induction fs arbitrary: tc) (simp_all add: total_count_task)

lemma total_no_tasks: "total no_tasks = 0"
  by (simp add: total_def no_tasks_def)

lemma monitorTeam_counts:
  "sn_taskCounts (fst (monitorTeam H team c paneIds w)) = scan_tasks H (stateRoot c team) w"
  by (simp add: monitorTeam_def Let_def split: prod.splits)

subsection \<open>createTeamSession: the pane loop\<close>

lemma pane_name_inj: "pane_name a = pane_name b \<Longrightarrow> a = b"
  by (simp add: pane_name_def String_inj)

lemma pane_name_nonempty: "pane_name a \<noteq> []"
  by (simp add: pane_name_def)

lemma resolve_pane:
  "resolve t (pane_name k) =
     (case map_of (panes t) (pane_name k) of Some s \<Rightarrow> Some (s, pane_name k) | None \<Rightarrow> None)"
  unfolding resolve_def pane_name_def by simp

lemma resolve_session:
  "s \<noteq> [] \<Longrightarrow> hd s \<noteq> CHR ''%'' \<Longrightarrow>
   resolve t s = (case map_of (sessions t) s of Some act \<Rightarrow> Some (s, act) | None \<Rightarrow> None)"
  by (simp add: resolve_def)

lemma set_insert_after: "set (insert_after p n xs) = insert n (set xs)"
  by (induction xs) auto

lemma map_of_insert_after:
  "fst n \<notin> fst ` set xs \<Longrightarrow>
   map_of (insert_after p n xs) x = (if x = fst n then Some (snd n) else map_of xs x)"
  by (induction xs) auto

lemma find_unique:
  assumes "x \<in> set xs" and "P x" and "\<forall>y \<in> set xs. P y \<longrightarrow> y = x"
  shows "List.find P xs = Some x"
  using assms
proof (induction xs)
  case Nil
  then show ?case by simp
next
  case (Cons a xs)
  show ?case
  proof (cases "P a")
    case True
    have "a = x" using Cons.prems(3) True by (meson list.set_intros(1))
    with True show ?thesis by simp
  next
    case False
    have in_tl: "x \<in> set xs"
      using Cons.prems(1,2) False by (metis set_ConsD)
    have uniq: "\<forall>y \<in> set xs. P y \<longrightarrow> y = x"
      using Cons.prems(3) by (meson list.set_intros(2))
    have "List.find P xs = Some x"
      by (rule Cons.IH [OF in_tl Cons.prems(2) uniq])
    with False show ?thesis by simp
  qed
qed

lemma owned_insert_after:
  "fst ` {e \<in> set (insert_after p (n, s) xs). snd e = s}
     = insert n (fst ` {e \<in> set xs. snd e = s})"
proof -
  have "{e \<in> set (insert_after p (n, s) xs). snd e = s} = insert (n, s) {e \<in> set xs. snd e = s}"
    unfolding set_insert_after by auto
  then show ?thesis by simp
qed

lemma range_Suc_image: "pane_name ` {a ..< Suc b} = (if a \<le> b then insert (pane_name b) (pane_name ` {a ..< b}) else {})"
proof (cases "a \<le> b")
  case True
  then have "{a ..< Suc b} = insert b {a ..< b}" by auto
  with True show ?thesis by simp
next
  case False
  then show ?thesis by simp
qed

lemma range_first_image: "a \<le> b \<Longrightarrow> pane_name ` {a ..< Suc b} = insert (pane_name a) (pane_name ` {Suc a ..< Suc b})"
proof -
  assume "a \<le> b"
  then have "{a ..< Suc b} = insert a {Suc a ..< Suc b}" by auto
  then show ?thesis by simp
qed


lemma split_window_Inr:
  assumes "resolve t target = Some (s, p)" and "0 < room t"
  shows "\<exists>t'. split_window target t = Inr t' \<and>
           sessions t' = AList.update s (pane_name (next_pane t)) (sessions t) \<and>
           panes t' = insert_after p (pane_name (next_pane t), s) (panes t) \<and>
           next_pane t' = Suc (next_pane t) \<and> room t' = room t - 1"
  using assms by (simp add: split_window_def)

lemma split_target:
  assumes inv: "split_inv n0 s i ws t" and s: "s \<noteq> []" "hd s \<noteq> CHR ''%''"
  shows "\<exists>p. resolve t (if i = 0 then s else ws ! (i - 1)) = Some (s, p)"
proof (cases "i = 0")
  case True
  from inv have "map_of (sessions t) s \<noteq> None" by (simp add: split_inv_def)
  then obtain act where "map_of (sessions t) s = Some act" by blast
  with True s show ?thesis by (simp add: resolve_session)
next
  case False
  from inv have ws: "ws = map pane_name [n0 + 1 ..< n0 + 1 + i]"
    and mine: "\<forall>j \<in> {n0 ..< n0 + 1 + i}. map_of (panes t) (pane_name j) = Some s"
    by (simp_all add: split_inv_def)
  from False have nth: "ws ! (i - 1) = pane_name (n0 + i)"
    unfolding ws by (simp del: upt_Suc)
  have "n0 + i \<in> {n0 ..< n0 + 1 + i}" by simp
  with mine have "map_of (panes t) (pane_name (n0 + i)) = Some s" by blast
  then have "resolve t (pane_name (n0 + i)) = Some (s, pane_name (n0 + i))"
    by (simp add: resolve_pane)
  with False nth show ?thesis by simp
qed

lemma split_inv_step:
  assumes inv: "split_inv n0 s i ws t"
    and se: "sessions t' = AList.update s (pane_name (next_pane t)) (sessions t)"
    and pa: "panes t' = insert_after p (pane_name (next_pane t), s) (panes t)"
    and ne: "next_pane t' = Suc (next_pane t)"
  shows "split_inv n0 s (Suc i) (ws @ [pane_name (n0 + 1 + i)]) t'"
proof -
  let ?new = "pane_name (n0 + 1 + i)"
  from inv have nxt: "next_pane t = n0 + 1 + i"
    and ws: "ws = map pane_name [n0 + 1 ..< n0 + 1 + i]"
    and own: "fst ` {e \<in> set (panes t). snd e = s} = pane_name ` {n0 ..< n0 + 1 + i}"
    and mine: "\<forall>j \<in> {n0 ..< n0 + 1 + i}. map_of (panes t) (pane_name j) = Some s"
    and fresh: "\<forall>k. n0 + 1 + i \<le> k \<longrightarrow> pane_name k \<notin> fst ` set (panes t)"
    by (simp_all add: split_inv_def)
  have pa': "panes t' = insert_after p (?new, s) (panes t)"
    using pa nxt by simp
  have newfresh: "fst (?new, s) \<notin> fst ` set (panes t)"
    using fresh by simp
  have c1: "map_of (sessions t') s \<noteq> None"
    unfolding se by (simp add: update_conv')
  have c2: "next_pane t' = n0 + 1 + Suc i"
    using ne nxt by simp
  have c3: "ws @ [?new] = map pane_name [n0 + 1 ..< n0 + 1 + Suc i]"
    unfolding ws by simp
  have c4: "fst ` {e \<in> set (panes t'). snd e = s} = pane_name ` {n0 ..< n0 + 1 + Suc i}"
  proof -
    have "fst ` {e \<in> set (panes t'). snd e = s} = insert ?new (pane_name ` {n0 ..< n0 + 1 + i})"
      unfolding pa' owned_insert_after own ..
    also have "\<dots> = pane_name ` {n0 ..< Suc (n0 + 1 + i)}"
      by (simp add: range_Suc_image)
    finally show ?thesis by simp
  qed
  have c5: "\<forall>j \<in> {n0 ..< n0 + 1 + Suc i}. map_of (panes t') (pane_name j) = Some s"
  proof
    fix j assume j: "j \<in> {n0 ..< n0 + 1 + Suc i}"
    show "map_of (panes t') (pane_name j) = Some s"
    proof (cases "j = n0 + 1 + i")
      case True
      show ?thesis
        unfolding pa' map_of_insert_after [OF newfresh] True by simp
    next
      case False
      with j have "j \<in> {n0 ..< n0 + 1 + i}" by auto
      with mine have old: "map_of (panes t) (pane_name j) = Some s" by blast
      from False have "pane_name j \<noteq> ?new"
        using pane_name_inj by blast
      then show ?thesis
        unfolding pa' map_of_insert_after [OF newfresh] using old by simp
    qed
  qed
  have c6: "\<forall>k. n0 + 1 + Suc i \<le> k \<longrightarrow> pane_name k \<notin> fst ` set (panes t')"
  proof (intro allI impI)
    fix k assume k: "n0 + 1 + Suc i \<le> k"
    then have "k \<noteq> n0 + 1 + i" by simp
    then have ne: "pane_name k \<noteq> ?new" using pane_name_inj by blast
    from k have "n0 + 1 + i \<le> k" by simp
    with fresh have old: "pane_name k \<notin> fst ` set (panes t)" by blast
    have "fst ` set (panes t') = insert ?new (fst ` set (panes t))"
      unfolding pa' set_insert_after by simp
    with ne old show "pane_name k \<notin> fst ` set (panes t')" by simp
  qed
  show ?thesis
    unfolding split_inv_def using c1 c2 c3 c4 c5 c6 by blast
qed

lemma discover_new:
  assumes inv: "split_inv n0 s (Suc i) (ws @ [pane_name (n0 + 1 + i)]) t'"
    and wsq: "ws = map pane_name [n0 + 1 ..< n0 + 1 + i]"
    and s: "s \<noteq> []" "hd s \<noteq> CHR ''%''"
  shows "\<exists>out. list_panes s t' = Inr out \<and>
           discover (pane_name n0) ws (filter (\<lambda>p. p \<noteq> []) out) = Some (pane_name (n0 + 1 + i))"
proof -
  let ?new = "pane_name (n0 + 1 + i)"
  let ?out = "map fst (filter (\<lambda>e. snd e = s) (panes t'))"
  from inv have sess: "map_of (sessions t') s \<noteq> None"
    and own: "fst ` {e \<in> set (panes t'). snd e = s} = pane_name ` {n0 ..< n0 + 1 + Suc i}"
    by (simp_all add: split_inv_def)
  from sess obtain act where "map_of (sessions t') s = Some act" by blast
  then have lp: "list_panes s t' = Inr ?out"
    using s by (simp add: list_panes_def resolve_session)
  have out_set: "set ?out = pane_name ` {n0 ..< n0 + 1 + Suc i}"
    using own by simp
  have "\<forall>x \<in> set ?out. x \<noteq> []"
    unfolding out_set by (simp add: pane_name_nonempty)
  then have nonempty: "filter (\<lambda>p. p \<noteq> []) ?out = ?out"
    by (simp only: filter_id_conv)
  have ws_set: "set ws = pane_name ` {n0 + 1 ..< n0 + 1 + i}"
    unfolding wsq by (simp del: upt_Suc)
  have new_unknown: "?new \<noteq> pane_name n0 \<and> ?new \<notin> set ws"
  proof
    show "?new \<noteq> pane_name n0" using pane_name_inj [of "n0 + 1 + i" n0] by auto
    show "?new \<notin> set ws"
    proof
      assume "?new \<in> set ws"
      then obtain j where "?new = pane_name j" "j < n0 + 1 + i" unfolding ws_set by auto
      then show False using pane_name_inj [of "n0 + 1 + i" j] by auto
    qed
  qed
  have only: "\<forall>y \<in> set ?out. (y \<noteq> pane_name n0 \<and> y \<notin> set ws) \<longrightarrow> y = ?new"
  proof (intro ballI impI)
    fix y assume y: "y \<in> set ?out" and u: "y \<noteq> pane_name n0 \<and> y \<notin> set ws"
    from y obtain j where j: "y = pane_name j" "n0 \<le> j" "j < n0 + 1 + Suc i"
      unfolding out_set by auto
    have "j \<noteq> n0" using u j(1) by blast
    moreover have "\<not> (n0 + 1 \<le> j \<and> j < n0 + 1 + i)"
    proof
      assume "n0 + 1 \<le> j \<and> j < n0 + 1 + i"
      then have "pane_name j \<in> set ws" unfolding ws_set by simp
      with u j(1) show False by blast
    qed
    ultimately have "j = n0 + 1 + i" using j(2,3) by linarith
    with j(1) show "y = ?new" by simp
  qed
  have mem: "?new \<in> set ?out"
    unfolding out_set by simp
  have "List.find (\<lambda>p. p \<noteq> pane_name n0 \<and> p \<notin> set ws) ?out = Some ?new"
    using mem new_unknown only by (rule find_unique)
  then have "discover (pane_name n0) ws (filter (\<lambda>p. p \<noteq> []) ?out) = Some ?new"
    unfolding nonempty discover_def .
  with lp show ?thesis by blast
qed


lemma split_loop_ok:
  assumes "split_inv n0 s i ws (mux w)" and "k \<le> room (mux w)"
    and s: "s \<noteq> []" "hd s \<noteq> CHR ''%''"
  shows "\<exists>w'. split_loop s (pane_name n0) i k ws w
                = (Inr (map pane_name [n0 + 1 ..< n0 + 1 + i + k]), w') \<and>
              split_inv n0 s (i + k) (map pane_name [n0 + 1 ..< n0 + 1 + i + k]) (mux w')"
  using assms(1,2)
proof (induction k arbitrary: i ws w)
  case 0
  then have ws: "ws = map pane_name [n0 + 1 ..< n0 + 1 + i]"
    by (simp add: split_inv_def)
  from 0(1) have "split_inv n0 s (i + 0) (map pane_name [n0 + 1 ..< n0 + 1 + i + 0]) (mux w)"
    unfolding ws by simp
  then show ?case unfolding ws by (simp add: ret_def)
next
  case (Suc k)
  let ?new = "pane_name (n0 + 1 + i)"
  let ?target = "if i = 0 then s else ws ! (i - 1)"
  from Suc.prems(1) have wsq: "ws = map pane_name [n0 + 1 ..< n0 + 1 + i]"
    by (simp add: split_inv_def)
  then have len: "length ws = i" by simp
  have pick: "(if i = 0 then ret s
               else if i - 1 < length ws then ret (ws ! (i - 1)) else throw TypeError)
              = (ret ?target :: string io)"
    using len by auto
  from split_target [OF Suc.prems(1) s]
  obtain p where res: "resolve (mux w) ?target = Some (s, p)" by blast
  from Suc.prems(2) have room: "0 < room (mux w)" by simp
  from split_window_Inr [OF res room]
  obtain t' where sw: "split_window ?target (mux w) = Inr t'"
    and se: "sessions t' = AList.update s (pane_name (next_pane (mux w))) (sessions (mux w))"
    and pa: "panes t' = insert_after p (pane_name (next_pane (mux w)), s) (panes (mux w))"
    and ne: "next_pane t' = Suc (next_pane (mux w))"
    and ro: "room t' = room (mux w) - 1"
    by blast
  have inv': "split_inv n0 s (Suc i) (ws @ [?new]) t'"
    by (rule split_inv_step [OF Suc.prems(1) se pa ne])
  from discover_new [OF inv' wsq s]
  obtain out where lp: "list_panes s t' = Inr out"
    and disc: "discover (pane_name n0) ws (filter (\<lambda>p. p \<noteq> []) out) = Some ?new"
    by blast
  let ?w1 = "w\<lparr>mux := t'\<rparr>"
  have inv1: "split_inv n0 s (Suc i) (ws @ [?new]) (mux ?w1)"
    using inv' by simp
  have room1: "k \<le> room (mux ?w1)"
    using ro Suc.prems(2) by simp
  from Suc.IH [OF inv1 room1]
  obtain w' where rec: "split_loop s (pane_name n0) (Suc i) k (ws @ [?new]) ?w1
                          = (Inr (map pane_name [n0 + 1 ..< n0 + 1 + Suc i + k]), w')"
    and after: "split_inv n0 s (Suc i + k) (map pane_name [n0 + 1 ..< n0 + 1 + Suc i + k]) (mux w')"
    by blast
  have "split_loop s (pane_name n0) i (Suc k) ws w
          = split_loop s (pane_name n0) (Suc i) k (ws @ [?new]) ?w1"
    unfolding split_loop.simps pick
    by (simp add: bind_def ret_def on_mux_def ask_mux_def sw lp disc pane_name_nonempty)
  with rec have run: "split_loop s (pane_name n0) i (Suc k) ws w
                        = (Inr (map pane_name [n0 + 1 ..< n0 + 1 + i + Suc k]), w')"
    by simp
  from after
  have "split_inv n0 s (i + Suc k) (map pane_name [n0 + 1 ..< n0 + 1 + i + Suc k]) (mux w')"
    by simp
  with run show ?case by blast
qed

lemma new_session_inv:
  assumes wf: "wf_tmux t" and absent: "map_of (sessions t) s = None"
  shows "\<exists>t1. new_session s t = Inr t1 \<and> room t1 = room t \<and>
              map_of (sessions t1) s = Some (pane_name (next_pane t)) \<and>
              split_inv (next_pane t) s 0 [] t1"
proof -
  let ?n0 = "next_pane t"
  let ?t1 = "t\<lparr>sessions := AList.update s (pane_name ?n0) (sessions t),
               panes := panes t @ [(pane_name ?n0, s)],
               next_pane := Suc ?n0\<rparr>"
  from wf have live: "\<forall>e \<in> set (panes t). map_of (sessions t) (snd e) \<noteq> None"
    and fresh: "\<forall>k. ?n0 \<le> k \<longrightarrow> pane_name k \<notin> fst ` set (panes t)"
    by (simp_all add: wf_tmux_def)
  have ns: "new_session s t = Inr ?t1"
    using absent by (simp add: new_session_def)
  have none: "{e \<in> set (panes t). snd e = s} = {}"
    using live absent by auto
  have "{e \<in> set (panes ?t1). snd e = s} = insert (pane_name ?n0, s) {e \<in> set (panes t). snd e = s}"
    by auto
  then have own: "fst ` {e \<in> set (panes ?t1). snd e = s} = pane_name ` {?n0 ..< ?n0 + 1 + 0}"
    unfolding none by simp
  have notin: "pane_name ?n0 \<notin> fst ` set (panes t)"
    using fresh by simp
  then have "map_of (panes t) (pane_name ?n0) = None"
    by (simp add: map_of_eq_None_iff)
  then have mine: "\<forall>j \<in> {?n0 ..< ?n0 + 1 + 0}. map_of (panes ?t1) (pane_name j) = Some s"
    by (simp add: map_add_def)
  have fresh1: "\<forall>k. ?n0 + 1 + 0 \<le> k \<longrightarrow> pane_name k \<notin> fst ` set (panes ?t1)"
  proof (intro allI impI)
    fix k assume k: "?n0 + 1 + 0 \<le> k"
    then have "k \<noteq> ?n0" by simp
    then have "pane_name k \<noteq> pane_name ?n0" using pane_name_inj by blast
    moreover from k fresh have "pane_name k \<notin> fst ` set (panes t)" by simp
    ultimately show "pane_name k \<notin> fst ` set (panes ?t1)" by simp
  qed
  have sess: "map_of (sessions ?t1) s = Some (pane_name ?n0)"
    by (simp add: update_conv')
  have "split_inv ?n0 s 0 [] ?t1"
    unfolding split_inv_def using sess own mine fresh1 by simp
  with ns sess show ?thesis by simp
qed


lemma distinct_pane_names: "distinct (map pane_name [a ..< b])"
proof -
  have "inj_on pane_name (set [a ..< b])"
    by (rule inj_onI) (rule pane_name_inj)
  then show ?thesis by (simp add: distinct_map)
qed

subsection \<open>Creating files\<close>

lemma mkdir_ok:
  assumes "\<forall>q \<in> set (ancestors d). \<not> is_file (lookup f q)"
  shows "\<exists>f1. mkdir d f = Inr f1"
proof -
  from assms have "filter (\<lambda>q. is_file (lookup f q)) (ancestors d) = []"
    by (simp add: filter_empty_conv)
  then show ?thesis by (simp add: mkdir_def)
qed

lemma mkdir_Inr_no_file:
  assumes "mkdir d f = Inr f1"
  shows "\<forall>q \<in> set (ancestors d). \<not> is_file (lookup f q)"
proof -
  from assms have "filter (\<lambda>q. is_file (lookup f q)) (ancestors d) = []"
    by (simp add: mkdir_def split: list.splits)
  then show ?thesis by (simp add: filter_empty_conv)
qed

lemma self_in_ancestors: "d \<noteq> [] \<Longrightarrow> d \<in> set (ancestors d)"
proof -
  assume "d \<noteq> []"
  then have "length d \<in> {1 ..< Suc (length d)}" by (cases d) simp_all
  then have "take (length d) d \<in> (\<lambda>n. take n d) ` {1 ..< Suc (length d)}" by (rule imageI)
  then show ?thesis by (simp add: ancestors_def del: upt_Suc)
qed

lemma mkdir_makes_dir:
  assumes "mkdir d f = Inr f1"
  shows "lookup f1 d = Some Dir"
proof (cases "d = []")
  case True
  then show ?thesis by (simp add: lookup_def)
next
  case False
  then have mem: "d \<in> set (ancestors d)" by (rule self_in_ancestors)
  with mkdir_Inr_no_file [OF assms] have nf: "\<not> is_file (lookup f d)" by blast
  show ?thesis
  proof (cases "lookup f d")
    case None
    with mem show ?thesis by (simp add: lookup_mkdir [OF assms])
  next
    case (Some n)
    with nf have "n = Dir" by (cases n) (simp_all add: is_file_def)
    with Some show ?thesis by (simp add: lookup_mkdir [OF assms])
  qed
qed

lemma ancestors_shorter: "q \<in> set (ancestors d) \<Longrightarrow> length q \<le> length d"
  by (auto simp: ancestors_def simp del: upt_Suc)

lemma not_own_ancestor: "p \<noteq> [] \<Longrightarrow> p \<notin> set (ancestors (butlast p))"
proof
  assume "p \<noteq> []" and "p \<in> set (ancestors (butlast p))"
  then have "length p \<le> length (butlast p)" by (intro ancestors_shorter)
  with \<open>p \<noteq> []\<close> show False by (cases p rule: rev_cases) simp_all
qed

lemma writeFile_ok:
  assumes "p \<noteq> []" and "lookup f (butlast p) = Some Dir" and "lookup f p \<noteq> Some Dir"
  shows "\<exists>f'. writeFile p c f = Inr f'"
  using assms by (auto simp: writeFile_def parent_check_def split: option.splits node.splits)

lemma appendFile_ok:
  assumes "p \<noteq> []" and "lookup f (butlast p) = Some Dir" and "lookup f p \<noteq> Some Dir"
  shows "\<exists>f'. appendFile p c f = Inr f'"
  using assms by (auto simp: appendFile_def parent_check_def split: option.splits node.splits)

subsection \<open>writeJson, the acknowledgement loop, killTeamSession\<close>

lemma writeJson_ok:
  assumes "creatable (files w) p"
  shows "\<exists>w'. writeJson H p v w = (Inr (), w') \<and>
           mux w' = mux w \<and> clock w' = clock w \<and> console w' = console w \<and>
           (\<forall>q. lookup (files w') q =
                  (if q = p then Some (File (JSON_stringify H v))
                   else if q \<in> set (ancestors (butlast p)) \<and> lookup (files w) q = None
                     then Some Dir
                   else lookup (files w) q))"
proof -
  from assms have p: "p \<noteq> []"
    and anc: "\<forall>q \<in> set (ancestors (butlast p)). \<not> is_file (lookup (files w) q)"
    and nd: "lookup (files w) p \<noteq> Some Dir"
    by (simp_all add: creatable_def)
  from mkdir_ok [OF anc] obtain f1 where mk: "mkdir (butlast p) (files w) = Inr f1" by blast
  have dir: "lookup f1 (butlast p) = Some Dir"
    by (rule mkdir_makes_dir [OF mk])
  have same: "lookup f1 p = lookup (files w) p"
    using not_own_ancestor [OF p] by (simp add: lookup_mkdir [OF mk])
  with nd have nd1: "lookup f1 p \<noteq> Some Dir" by simp
  from writeFile_ok [OF p dir nd1]
  obtain f2 where wr: "writeFile p (JSON_stringify H v) f1 = Inr f2" by blast
  have run: "writeJson H p v w = (Inr (), w\<lparr>files := f2\<rparr>)"
    by (simp add: writeJson_def bind_def on_files_def join_dotdot mk wr)
  have look: "lookup f2 q =
                  (if q = p then Some (File (JSON_stringify H v))
                   else if q \<in> set (ancestors (butlast p)) \<and> lookup (files w) q = None
                     then Some Dir
                   else lookup (files w) q)" for q
    by (simp add: lookup_writeFile [OF wr] lookup_mkdir [OF mk])
  from run look show ?thesis by simp
qed

lemma readJsonSafe_cong:
  "lookup (files w1) p = lookup (files w) p \<Longrightarrow> readJsonSafe H p w1 = readJsonSafe H p w"
  by (simp add: readJsonSafe_def readFile_def)

lemma ack_loop_frame:
  "ack_loop H root deadline expected w = (r, w') \<Longrightarrow>
   mux w' = mux w \<and> console w' = console w \<and> clock w \<le> clock w' \<and>
   (clock w' = clock w \<or> clock w' < deadline + 500)"
proof (induction H root deadline expected w arbitrary: r w' rule: ack_loop.induct)
  case (1 H root deadline expectedAcks w)
  let ?rem = "fold (\<lambda>wName acc. if existsSync (ackPath root wName) (files w)
                                      then remove1 wName acc else acc)
                    expectedAcks expectedAcks"
  show ?case
  proof (cases "clock w < deadline \<and> length expectedAcks > 0")
    case False
    then have "ack_loop H root deadline expectedAcks w = (expectedAcks, w)"
      by (subst ack_loop.simps) simp
    with "1.prems" show ?thesis by simp
  next
    case True
    show ?thesis
    proof (cases "length ?rem > 0")
      case False
      with True have "ack_loop H root deadline expectedAcks w = (?rem, w)"
        by (subst ack_loop.simps) (simp add: Let_def)
      with "1.prems" show ?thesis by simp
    next
      case rem: True
      with True have "ack_loop H root deadline expectedAcks w
                        = ack_loop H root deadline ?rem (sleep H 500 w)"
        by (subst ack_loop.simps) (simp add: Let_def)
      with "1.prems" have rec: "ack_loop H root deadline ?rem (sleep H 500 w) = (r, w')"
        by simp
      from "1.IH" [OF True refl rem rec]
      have "mux w' = mux (sleep H 500 w) \<and> console w' = console (sleep H 500 w) \<and>
            clock (sleep H 500 w) \<le> clock w' \<and>
            (clock w' = clock (sleep H 500 w) \<or> clock w' < deadline + 500)" .
      with True show ?thesis by (auto simp: sleep_def)
    qed
  qed
qed

lemma kill_gone:
  assumes "\<not> (s \<noteq> [] \<and> hd s = CHR ''%'')"
  shows "\<not> has_session s (mux (killTeamSession s w))"
proof (cases "map_of (sessions (mux w)) s")
  case None
  with assms show ?thesis
    by (auto simp: killTeamSession_def kill_session_def has_session_def resolve_def)
next
  case (Some act)
  with assms show ?thesis
    by (auto simp: killTeamSession_def kill_session_def has_session_def resolve_def delete_conv')
qed

lemma killTeamSession_frame:
  "files (killTeamSession s w) = files w \<and> clock (killTeamSession s w) = clock w"
  by (simp add: killTeamSession_def split: sum.splits)

subsection \<open>shutdownTeam: a blocked state directory\<close>

lemma blocked_write:
  "writeJson demo_host (join (stateRoot ''/p'' ''t1'') [''shutdown.json''])
     (JObj [(''requestedAt'', JStr (toISOString demo_host (clock blocked_world))),
            (''teamName'', JStr ''t1'')]) blocked_world
   = (Inl (ENOTDIR [''p'', ''.omc'', ''state'', ''team'', ''t1'']), blocked_world)"
  by code_simp

subsection \<open>assignTask: the inbox and the trigger\<close>

lemma append_ok:
  assumes "creatable f p"
  shows "\<exists>f1 f2. mkdir (butlast p) f = Inr f1 \<and> appendFile p c f1 = Inr f2 \<and>
           (\<forall>q. lookup f2 q =
                  (if q = p
                   then Some (File ((case lookup f p of Some (File old) \<Rightarrow> old | _ \<Rightarrow> []) @ c))
                   else if q \<in> set (ancestors (butlast p)) \<and> lookup f q = None then Some Dir
                   else lookup f q))"
proof -
  from assms have p: "p \<noteq> []"
    and anc: "\<forall>q \<in> set (ancestors (butlast p)). \<not> is_file (lookup f q)"
    and nd: "lookup f p \<noteq> Some Dir"
    by (simp_all add: creatable_def)
  from mkdir_ok [OF anc] obtain f1 where mk: "mkdir (butlast p) f = Inr f1" by blast
  have dir: "lookup f1 (butlast p) = Some Dir"
    by (rule mkdir_makes_dir [OF mk])
  have same: "lookup f1 p = lookup f p"
    using not_own_ancestor [OF p] by (simp add: lookup_mkdir [OF mk])
  with nd have nd1: "lookup f1 p \<noteq> Some Dir" by simp
  from appendFile_ok [OF p dir nd1]
  obtain f2 where ap: "appendFile p c f1 = Inr f2" by blast
  have "lookup f2 q =
                  (if q = p
                   then Some (File ((case lookup f p of Some (File old) \<Rightarrow> old | _ \<Rightarrow> []) @ c))
                   else if q \<in> set (ancestors (butlast p)) \<and> lookup f q = None then Some Dir
                   else lookup f q)" for q
    by (simp add: lookup_appendFile [OF ap] lookup_mkdir [OF mk] same)
  with mk ap show ?thesis by blast
qed

lemma resolve_typed [simp]: "resolve (t\<lparr>typed := x\<rparr>) target = resolve t target"
  by (simp add: resolve_def)

lemma sendToWorker_files:
  "files (snd (sendToWorker s pane m w)) = files w \<and> clock (snd (sendToWorker s pane m w)) = clock w"
  by (simp add: sendToWorker_def Let_def on_mux_def send_keys_def warn_def
           split: option.splits prod.splits sum.splits)

lemma sendToWorker_typed:
  assumes "resolve (mux w) pane = Some (s', p')"
  shows "typed (mux (snd (sendToWorker s pane m w)))
           = typed (mux w) @ [(p', Lit (take 200 m)), (p', KeyEnter)]"
  using assms
  by (simp add: sendToWorker_def Let_def on_mux_def send_keys_def warn_def)

lemma is_under_branch: "is_under (r @ [a]) (r @ b # bs) \<longleftrightarrow> a = b"
  by (auto simp: is_under_def)

lemma under_sibling_ancestor:
  assumes u: "is_under (r @ [a]) q" and q: "q \<in> set (ancestors (r @ b # bs))"
  shows "a = b"
proof -
  from q obtain n where n: "q = take n (r @ b # bs)"
    by (auto simp: ancestors_def simp del: upt_Suc)
  from u have t: "take (Suc (length r)) q = r @ [a]"
    by (simp add: is_under_def)
  then have "Suc (length r) \<le> length q"
    by (metis length_append_singleton length_take min.cobounded1)
  with n have "Suc (length r) \<le> n" by simp
  then have "take (Suc (length r)) q = take (Suc (length r)) (r @ b # bs)"
    unfolding n by (simp add: min_def)
  with t show ?thesis by simp
qed

lemma join3_plain:
  "plain a \<Longrightarrow> plain b \<Longrightarrow> plain c \<Longrightarrow> join r [a, b, c] = r @ [a, b, c]"
  by (simp add: join_def split_on_plain norm_step_def plain_def)

lemma readJsonSafe_unparsable:
  assumes "lookup (files w) p = None \<or>
           (\<exists>content. lookup (files w) p = Some (File content) \<and> JSON_parse H content = None)"
  shows "readJsonSafe H p w = JNull"
  using assms by (auto simp: readJsonSafe_def readFile_def)

subsection \<open>startTeam: the task files\<close>

lemma writeJson_Inr:
  assumes "writeJson H p v w = (Inr (), w1)"
  shows "mux w1 = mux w \<and> clock w1 = clock w \<and> console w1 = console w \<and>
         (\<forall>q. lookup (files w1) q =
                  (if q = p then Some (File (JSON_stringify H v))
                   else if q \<in> set (ancestors (butlast p)) \<and> lookup (files w) q = None
                     then Some Dir
                   else lookup (files w) q))"
proof -
  from assms obtain f1 where mk: "mkdir (butlast p) (files w) = Inr f1"
    by (auto simp: writeJson_def bind_def on_files_def join_dotdot split: sum.splits)
  with assms obtain f2 where wr: "writeFile p (JSON_stringify H v) f1 = Inr f2"
    and w1: "w1 = w\<lparr>files := f2\<rparr>"
    by (auto simp: writeJson_def bind_def on_files_def join_dotdot split: sum.splits)
  have "lookup f2 q =
                  (if q = p then Some (File (JSON_stringify H v))
                   else if q \<in> set (ancestors (butlast p)) \<and> lookup (files w) q = None
                     then Some Dir
                   else lookup (files w) q)" for q
    by (simp add: lookup_writeFile [OF wr] lookup_mkdir [OF mk])
  with w1 show ?thesis by simp
qed

lemma task_file_path:
  "join root [''tasks'', String n @ ''.json''] = root @ [''tasks'', String n @ ''.json'']"
proof -
  have "plain (String n @ ''.json'')"
    by (rule plain_json_name) (rule String_no_slash)
  then show ?thesis
    by (simp add: join_def split_on_plain norm_step_def plain_def)
qed

lemma write_tasks_keeps:
  assumes "write_tasks H root i ts w = (Inr (), w')"
    and "lookup (files w) q = Some (File x)"
    and "\<forall>j < length ts. q \<noteq> root @ [''tasks'', String (i + j + 1) @ ''.json'']"
  shows "lookup (files w') q = Some (File x)"
  using assms
proof (induction ts arbitrary: i w)
  case Nil
  then show ?case by (simp add: ret_def)
next
  case (Cons t ts)
  let ?p = "join root [''tasks'', String (i + 1) @ ''.json'']"
  from Cons.prems(1) obtain w1 where
    first: "writeJson H ?p (task_json H (clock w) (String (i + 1)) t) w = (Inr (), w1)"
    and rest: "write_tasks H root (Suc i) ts w1 = (Inr (), w')"
    by (auto simp: bind_def split: prod.splits sum.splits)
  from Cons.prems(3) have "q \<noteq> root @ [''tasks'', String (i + 0 + 1) @ ''.json'']"
    by blast
  then have "q \<noteq> ?p" by (simp add: task_file_path)
  with writeJson_Inr [OF first] Cons.prems(2)
  have keep1: "lookup (files w1) q = Some (File x)" by simp
  have others: "\<forall>j < length ts. q \<noteq> root @ [''tasks'', String (Suc i + j + 1) @ ''.json'']"
  proof (intro allI impI)
    fix j assume "j < length ts"
    then have "Suc j < length (t # ts)" by simp
    with Cons.prems(3) have "q \<noteq> root @ [''tasks'', String (i + Suc j + 1) @ ''.json'']"
      by blast
    then show "q \<noteq> root @ [''tasks'', String (Suc i + j + 1) @ ''.json'']" by simp
  qed
  show ?case by (rule Cons.IH [OF rest keep1 others])
qed

lemma write_tasks_files:
  assumes "write_tasks H root i ts w = (Inr (), w')"
  shows "clock w' = clock w \<and>
         (\<forall>j < length ts.
            lookup (files w') (join root [''tasks'', String (i + j + 1) @ ''.json''])
              = Some (File (JSON_stringify H (task_json H (clock w) (String (i + j + 1)) (ts ! j)))))"
  using assms
proof (induction ts arbitrary: i w)
  case Nil
  then show ?case by (simp add: ret_def)
next
  case (Cons t ts)
  let ?p = "join root [''tasks'', String (i + 1) @ ''.json'']"
  from Cons.prems obtain w1 where
    first: "writeJson H ?p (task_json H (clock w) (String (i + 1)) t) w = (Inr (), w1)"
    and rest: "write_tasks H root (Suc i) ts w1 = (Inr (), w')"
    by (auto simp: bind_def split: prod.splits sum.splits)
  from writeJson_Inr [OF first] have clock1: "clock w1 = clock w"
    and mine: "lookup (files w1) ?p
                 = Some (File (JSON_stringify H (task_json H (clock w) (String (i + 1)) t)))"
    by simp_all
  from Cons.IH [OF rest] have clock': "clock w' = clock w1"
    and later: "\<forall>j < length ts.
            lookup (files w') (join root [''tasks'', String (Suc i + j + 1) @ ''.json''])
              = Some (File (JSON_stringify H (task_json H (clock w1) (String (Suc i + j + 1)) (ts ! j))))"
    by simp_all
  have apart: "\<forall>j < length ts. ?p \<noteq> root @ [''tasks'', String (Suc i + j + 1) @ ''.json'']"
  proof (intro allI impI)
    fix j assume "j < length ts"
    have "i + 1 \<noteq> Suc i + j + 1" by simp
    then have "String (i + 1) \<noteq> String (Suc i + j + 1)"
      using String_inj by blast
    then show "?p \<noteq> root @ [''tasks'', String (Suc i + j + 1) @ ''.json'']"
      by (simp add: task_file_path)
  qed
  have zero: "lookup (files w') ?p
                 = Some (File (JSON_stringify H (task_json H (clock w) (String (i + 1)) t)))"
    by (rule write_tasks_keeps [OF rest mine apart])
  show ?case
  proof (intro conjI allI impI)
    show "clock w' = clock w" using clock' clock1 by simp
  next
    fix j assume j: "j < length (t # ts)"
    show "lookup (files w') (join root [''tasks'', String (i + j + 1) @ ''.json''])
            = Some (File (JSON_stringify H
                 (task_json H (clock w) (String (i + j + 1)) ((t # ts) ! j))))"
    proof (cases j)
      case 0
      with zero show ?thesis by simp
    next
      case (Suc k)
      with j have "k < length ts" by simp
      with later Suc clock1 show ?thesis by simp
    qed
  qed
qed

subsection \<open>assignTask: the task record\<close>

lemma claimed_fields:
  "get_prop ''status'' (claimed H now target kvs) = Some (JStr ''in_progress'') \<and>
   get_prop ''owner'' (claimed H now target kvs) = Some (JStr target) \<and>
   (\<forall>k. k \<notin> {''owner'', ''status'', ''assignedAt''} \<longrightarrow>
        get_prop k (claimed H now target kvs) = map_of kvs k)"
  by (simp add: claimed_def get_prop_def update_conv')

lemma bind_Inr:
  assumes "bind m f w = (Inr y, w')"
  shows "\<exists>x w1. m w = (Inr x, w1) \<and> f x w1 = (Inr y, w')"
proof (cases "m w")
  case (Pair r w1)
  show ?thesis
  proof (cases r)
    case (Inl e)
    with Pair assms show ?thesis by (simp add: bind_def)
  next
    case (Inr x)
    with Pair assms show ?thesis by (simp add: bind_def)
  qed
qed

lemma on_files_Inr:
  assumes "on_files op w = (Inr u, w1)"
  shows "\<exists>f. op (files w) = Inr f \<and> w1 = w\<lparr>files := f\<rparr>"
proof (cases "op (files w)")
  case (Inl e)
  with assms show ?thesis by (simp add: on_files_def)
next
  case (Inr f)
  with assms show ?thesis by (auto simp: on_files_def)
qed

lemma assignTask_reassigns:
  assumes task: "readJsonSafe H (join (stateRoot c team) [''tasks'', taskId @ ''.json'']) w = JObj kvs"
    and target: "plain target" and tid: "CHR ''/'' \<notin> set taskId"
    and run: "assignTask H team taskId target pane sName c w = (Inr (), w')"
  shows "lookup (files w') (join (stateRoot c team) [''tasks'', taskId @ ''.json''])
           = Some (File (JSON_stringify H (claimed H (clock w) target kvs)))"
proof -
  define rt where "rt = stateRoot c team"
  define taskPath where "taskPath = join rt [''tasks'', taskId @ ''.json'']"
  define inboxPath where "inboxPath = join rt [''workers'', target, ''inbox.md'']"
  have ib: "inboxPath = rt @ [''workers'', target, ''inbox.md'']"
    unfolding inboxPath_def using target by (intro join3_plain) (simp_all add: plain_def)
  have "plain (taskId @ ''.json'')" using tid by (rule plain_json_name)
  then have tp: "taskPath = rt @ [''tasks'', taskId @ ''.json'']"
    unfolding taskPath_def by (simp add: join_def split_on_plain norm_step_def plain_def)
  have apart: "taskPath \<noteq> inboxPath" unfolding tp ib by simp
  have step1: "claim_task H taskPath target w
                 = writeJson H taskPath (claimed H (clock w) target kvs) w"
    using task unfolding rt_def [symmetric] taskPath_def [symmetric]
    by (simp add: claim_task_def truthy_def claimed_def)
  from run have run':
    "bind (claim_task H taskPath target) (\<lambda>_.
       bind (on_files (mkdir (butlast inboxPath))) (\<lambda>_.
       bind (on_files (appendFile inboxPath (assignment_msg team taskId))) (\<lambda>_ w.
         (Inr (), snd (sendToWorker sName pane (''new-task:'' @ taskId) w))))) w = (Inr (), w')"
    unfolding assignTask_def rt_def [symmetric] Let_def
      taskPath_def [symmetric] inboxPath_def [symmetric] join_dotdot .
  from bind_Inr [OF run'] obtain u1 w1 where
    c1': "claim_task H taskPath target w = (Inr u1, w1)"
    and r2: "bind (on_files (mkdir (butlast inboxPath))) (\<lambda>_.
       bind (on_files (appendFile inboxPath (assignment_msg team taskId))) (\<lambda>_ w.
         (Inr (), snd (sendToWorker sName pane (''new-task:'' @ taskId) w)))) w1 = (Inr (), w')"
    by blast
  from c1' have c1: "claim_task H taskPath target w = (Inr (), w1)" by simp
  from bind_Inr [OF r2] obtain u2 w2 where
    m2: "on_files (mkdir (butlast inboxPath)) w1 = (Inr u2, w2)"
    and r3: "bind (on_files (appendFile inboxPath (assignment_msg team taskId))) (\<lambda>_ w.
         (Inr (), snd (sendToWorker sName pane (''new-task:'' @ taskId) w))) w2 = (Inr (), w')"
    by blast
  from on_files_Inr [OF m2] obtain f2 where mk: "mkdir (butlast inboxPath) (files w1) = Inr f2"
    and w2: "w2 = w1\<lparr>files := f2\<rparr>" by blast
  from bind_Inr [OF r3] obtain u3 w3 where
    m3: "on_files (appendFile inboxPath (assignment_msg team taskId)) w2 = (Inr u3, w3)"
    and r4: "(Inr (), snd (sendToWorker sName pane (''new-task:'' @ taskId) w3)) = (Inr (), w')"
    by blast
  from on_files_Inr [OF m3] w2 obtain f3 where
    ap: "appendFile inboxPath (assignment_msg team taskId) f2 = Inr f3"
    and w3: "w3 = w1\<lparr>files := f3\<rparr>" by auto
  from r4 w3 have w': "w' = snd (sendToWorker sName pane (''new-task:'' @ taskId) (w1\<lparr>files := f3\<rparr>))"
    by simp
  from c1 step1 have "writeJson H taskPath (claimed H (clock w) target kvs) w = (Inr (), w1)"
    by simp
  from writeJson_Inr [OF this]
  have l1: "lookup (files w1) taskPath
              = Some (File (JSON_stringify H (claimed H (clock w) target kvs)))"
    by simp
  then have l2: "lookup f2 taskPath
              = Some (File (JSON_stringify H (claimed H (clock w) target kvs)))"
    by (simp add: lookup_mkdir [OF mk])
  then have l3: "lookup f3 taskPath
              = Some (File (JSON_stringify H (claimed H (clock w) target kvs)))"
    using apart by (simp add: lookup_appendFile [OF ap])
  have "files w' = f3"
    unfolding w'
    using sendToWorker_files [of sName pane "''new-task:'' @ taskId" "w1\<lparr>files := f3\<rparr>"]
    by simp
  with l3 show ?thesis
    unfolding rt_def [symmetric] taskPath_def [symmetric] by simp
qed

section \<open>The claims\<close>

text \<open>
  C6. The characters that \<^verbatim>\<open>sanitizeName\<close> keeps are exactly the 26 lower-case
  letters, the 26 upper-case letters, the 10 digits and the hyphen; it fails exactly
  when fewer than two of them remain, returns the first 50 survivors otherwise, and
  maps each of its own successful outputs to itself.
\<close>

theorem sanitizeName_spec:
  "(\<forall>c. valid_char c \<longleftrightarrow>
        c \<in> set ''abcdefghijklmnopqrstuvwxyzABCDEFGHIJKLMNOPQRSTUVWXYZ0123456789-'') \<and>
   ((\<exists>e. sanitizeName name = Inl e) \<longleftrightarrow> length (filter valid_char name) < 2) \<and>
   (\<forall>r. sanitizeName name = Inr r \<longrightarrow>
      r = take 50 (filter valid_char name) \<and> length r \<le> 50 \<and> 2 \<le> length r \<and>
      (\<forall>c \<in> set r. valid_char c) \<and> sanitizeName r = Inr r)"
proof (intro conjI allI impI)
  fix c
  show "valid_char c \<longleftrightarrow>
          c \<in> set ''abcdefghijklmnopqrstuvwxyzABCDEFGHIJKLMNOPQRSTUVWXYZ0123456789-''"
    by (rule valid_char_class)
next
  show "(\<exists>e. sanitizeName name = Inl e) \<longleftrightarrow> length (filter valid_char name) < 2"
    by (rule sanitizeName_fails_iff)
next
  fix r assume a: "sanitizeName name = Inr r"
  show r: "r = take 50 (filter valid_char name)"
    by (rule sanitizeName_Inr(1) [OF a])
  show l50: "length r \<le> 50"
    unfolding r by simp
  show l2: "2 \<le> length r"
    unfolding r using sanitizeName_Inr(2) [OF a] by simp
  show valid: "\<forall>c \<in> set r. valid_char c"
    unfolding r by (auto dest: in_set_takeD)
  show "sanitizeName r = Inr r"
    by (rule sanitizeName_fixpoint [OF valid l2 l50])
qed

theorem sanitizeName_spec_witness:
  "sanitizeName ''my team!'' = Inr ''myteam'' \<and> sanitizeName ''myteam'' = Inr ''myteam'' \<and>
   (\<exists>e. sanitizeName ''a.'' = Inl e) \<and>
   valid_char CHR ''-'' \<and> \<not> valid_char CHR ''_'' \<and> \<not> valid_char CHR ''/'' \<and>
   \<not> valid_char CHR '';'' \<and> \<not> valid_char CHR ''$''"
proof -
  have ok: "sanitizeName ''my team!'' = Inr ''myteam''"
    by (simp add: sanitizeName_def valid_char_def Let_def)
  have short: "length (filter valid_char ''a.'') < 2"
    by (simp add: valid_char_def Let_def)
  have idem: "sanitizeName ''myteam'' = Inr ''myteam''"
    using sanitizeName_spec [of "''my team!''", THEN conjunct2, THEN conjunct2, rule_format, OF ok]
    by blast
  have bad: "\<exists>e. sanitizeName ''a.'' = Inl e"
    using sanitizeName_spec [of "''a.''", THEN conjunct2, THEN conjunct1] short by blast
  have cls: "valid_char CHR ''-'' \<and> \<not> valid_char CHR ''_'' \<and> \<not> valid_char CHR ''/'' \<and>
             \<not> valid_char CHR '';'' \<and> \<not> valid_char CHR ''$''"
    by (simp add: sanitizeName_spec [of "[]", THEN conjunct1, rule_format])
  from ok idem bad cls show ?thesis by blast
qed

text \<open>
  C1. The phase of the snapshot returned by \<^verbatim>\<open>monitorTeam\<close> is a function of its four
  task counts alone, and that function is the table: planning iff pending > 0,
  inProgress = 0 and completed = 0; completed iff pending = 0, inProgress = 0,
  completed > 0 and failed = 0; fixing iff pending = 0, inProgress = 0 and failed > 0;
  executing in every other case.
\<close>

theorem monitorTeam_phase_table:
  "sn_phase (fst (monitorTeam H team c paneIds w))
     = infer_phase (sn_taskCounts (fst (monitorTeam H team c paneIds w))) \<and>
   (infer_phase tc = ''planning'' \<longleftrightarrow> pending tc > 0 \<and> inProgress tc = 0 \<and> completed tc = 0) \<and>
   (infer_phase tc = ''completed'' \<longleftrightarrow>
      pending tc = 0 \<and> inProgress tc = 0 \<and> completed tc > 0 \<and> failed tc = 0) \<and>
   (infer_phase tc = ''fixing'' \<longleftrightarrow> pending tc = 0 \<and> inProgress tc = 0 \<and> failed tc > 0) \<and>
   (infer_phase tc = ''executing'' \<longleftrightarrow>
      \<not> (pending tc > 0 \<and> inProgress tc = 0 \<and> completed tc = 0) \<and>
      \<not> (pending tc = 0 \<and> inProgress tc = 0 \<and> completed tc > 0 \<and> failed tc = 0) \<and>
      \<not> (pending tc = 0 \<and> inProgress tc = 0 \<and> failed tc > 0))"
proof -
  have "sn_phase (fst (monitorTeam H team c paneIds w))
          = infer_phase (sn_taskCounts (fst (monitorTeam H team c paneIds w)))"
    by (simp add: monitorTeam_def Let_def split: prod.splits)
  moreover have
    "(infer_phase tc = ''planning'' \<longleftrightarrow> pending tc > 0 \<and> inProgress tc = 0 \<and> completed tc = 0) \<and>
     (infer_phase tc = ''completed'' \<longleftrightarrow>
        pending tc = 0 \<and> inProgress tc = 0 \<and> completed tc > 0 \<and> failed tc = 0) \<and>
     (infer_phase tc = ''fixing'' \<longleftrightarrow> pending tc = 0 \<and> inProgress tc = 0 \<and> failed tc > 0) \<and>
     (infer_phase tc = ''executing'' \<longleftrightarrow>
        \<not> (pending tc > 0 \<and> inProgress tc = 0 \<and> completed tc = 0) \<and>
        \<not> (pending tc = 0 \<and> inProgress tc = 0 \<and> completed tc > 0 \<and> failed tc = 0) \<and>
        \<not> (pending tc = 0 \<and> inProgress tc = 0 \<and> failed tc > 0))"
    by (auto simp: infer_phase_def)
  ultimately show ?thesis by blast
qed

text \<open>
  C9. If \<^verbatim>\<open>validateCliAvailable\<close> fails for one of the agent types of the
  configuration, \<^verbatim>\<open>startTeam\<close> raises the failure of such a type and the world is
  as it was: no directory, no file, no session.
\<close>

theorem startTeam_fails_fast:
  assumes "\<exists>a \<in> set (agentTypes c). validateCliAvailable H a \<noteq> None"
  shows "\<exists>e. startTeam H c w = (Inl e, w) \<and>
             (\<exists>a \<in> set (agentTypes c). validateCliAvailable H a = Some e)"
proof -
  from assms have "validate_all H (dedup (agentTypes c)) \<noteq> None"
    by (simp add: validate_all_None set_dedup)
  then obtain e where e: "validate_all H (dedup (agentTypes c)) = Some e"
    by blast
  then have "startTeam H c w = (Inl e, w)"
    by (simp add: startTeam_def throw_def)
  moreover from validate_all_Some [OF e]
  have "\<exists>a \<in> set (agentTypes c). validateCliAvailable H a = Some e"
    by (simp add: set_dedup)
  ultimately show ?thesis by blast
qed

theorem startTeam_fails_fast_witness:
  "\<exists>e. startTeam demo_host mixed_config empty_world = (Inl e, empty_world)"
proof -
  have "\<exists>a \<in> set (agentTypes mixed_config). validateCliAvailable demo_host a \<noteq> None"
    by (simp add: mixed_config_def demo_host_def)
  from startTeam_fails_fast [OF this, of empty_world] show ?thesis by blast
qed

text \<open>
  C2. For the worker at each position of the pane list given to \<^verbatim>\<open>monitorTeam\<close>: with
  no heartbeat file the worker is not stalled; with a heartbeat whose \<^verbatim>\<open>updatedAt\<close> is
  a string that denotes the instant \<open>t\<close>, the worker is stalled exactly when
  \<open>now - t > 60000\<close>. (The empty string denotes no instant.)
\<close>

theorem stalled_iff_heartbeat_silent:
  assumes "i < length paneIds" and "Date_getTime H (JStr []) = None"
  shows "(lookup (files w) (heartbeatPath (stateRoot c team) (workerName i)) = None \<longrightarrow>
            \<not> stalled (sn_workers (fst (monitorTeam H team c paneIds w)) ! i)) \<and>
         (\<forall>s t. get_prop ''updatedAt''
                  (readJsonSafe H (heartbeatPath (stateRoot c team) (workerName i)) w)
                  = Some (JStr s) \<and>
                Date_getTime H (JStr s) = Some t \<longrightarrow>
            (stalled (sn_workers (fst (monitorTeam H team c paneIds w)) ! i)
               \<longleftrightarrow> clock w - t > 60000))"
proof -
  let ?hb = "readJsonSafe H (heartbeatPath (stateRoot c team) (workerName i)) w"
  have st: "stalled (sn_workers (fst (monitorTeam H team c paneIds w)) ! i)
              = is_stalled H (clock w) ?hb"
    by (simp add: monitorTeam_worker [OF assms(1)] stalled_worker_status)
  have absent: "lookup (files w) (heartbeatPath (stateRoot c team) (workerName i)) = None
                  \<Longrightarrow> \<not> is_stalled H (clock w) ?hb"
    by (simp add: readJsonSafe_missing is_stalled_def get_prop_def)
  have present: "is_stalled H (clock w) ?hb \<longleftrightarrow> clock w - t > 60000"
    if "get_prop ''updatedAt'' ?hb = Some (JStr s)" and "Date_getTime H (JStr s) = Some t"
    for s t
  proof (cases "s = []")
    case True
    with that(2) assms(2) show ?thesis by simp
  next
    case False
    with that show ?thesis by (simp add: is_stalled_def truthy_def)
  qed
  from absent present show ?thesis
    unfolding st by blast
qed

theorem stalled_iff_heartbeat_silent_witness:
  "stalled (sn_workers (fst (monitorTeam demo_host ''t1'' ''/p'' [''%1'', ''%2'', ''%3'']
              watched_world)) ! 0) \<and>
   \<not> stalled (sn_workers (fst (monitorTeam demo_host ''t1'' ''/p'' [''%1'', ''%2'', ''%3'']
              watched_world)) ! 1) \<and>
   \<not> stalled (sn_workers (fst (monitorTeam demo_host ''t1'' ''/p'' [''%1'', ''%2'', ''%3'']
              watched_world)) ! 2)"
proof -
  let ?ps = "[''%1'', ''%2'', ''%3'']"
  have len: "0 < length ?ps" "1 < length ?ps" "2 < length ?ps" by simp_all
  have empty: "Date_getTime demo_host (JStr []) = None"
    by (simp add: demo_host_def iso0_def iso60_def)
  have hb0: "get_prop ''updatedAt''
               (readJsonSafe demo_host (heartbeatPath (stateRoot ''/p'' ''t1'') (workerName 0))
                  watched_world) = Some (JStr iso0)"
    by code_simp
  have hb1: "lookup (files watched_world)
               (heartbeatPath (stateRoot ''/p'' ''t1'') (workerName 1)) = None"
    by code_simp
  have hb2: "get_prop ''updatedAt''
               (readJsonSafe demo_host (heartbeatPath (stateRoot ''/p'' ''t1'') (workerName 2))
                  watched_world) = Some (JStr iso60)"
    by code_simp
  have t0: "Date_getTime demo_host (JStr iso0) = Some 0"
    by (simp add: demo_host_def)
  have t2: "Date_getTime demo_host (JStr iso60) = Some 60000"
    by (simp add: demo_host_def iso0_def iso60_def)
  have now: "clock watched_world = 100000"
    by (simp add: watched_world_def)
  from stalled_iff_heartbeat_silent [OF len(1) empty, of watched_world "''/p''" "''t1''"]
    hb0 t0 now
  have a: "stalled (sn_workers (fst (monitorTeam demo_host ''t1'' ''/p'' ?ps watched_world)) ! 0)"
    by simp
  from stalled_iff_heartbeat_silent [OF len(2) empty, of watched_world "''/p''" "''t1''"] hb1
  have b: "\<not> stalled (sn_workers (fst (monitorTeam demo_host ''t1'' ''/p'' ?ps watched_world)) ! 1)"
    by blast
  from stalled_iff_heartbeat_silent [OF len(3) empty, of watched_world "''/p''" "''t1''"]
    hb2 t2 now
  have c: "\<not> stalled (sn_workers (fst (monitorTeam demo_host ''t1'' ''/p'' ?ps watched_world)) ! 2)"
    by simp
  from a b c show ?thesis by blast
qed

text \<open>
  C5 (as amended). The sum of the four counts of a snapshot is the number of entries
  of the tasks directory whose name ends in \<^verbatim>\<open>.json\<close> and whose content parses to a
  record with status pending, in_progress, completed or failed; it is zero when the
  directory cannot be read. So it is at most the number of entries, and files that
  are truncated, unparsable or carry another status are not counted.
\<close>

theorem counts_cover_valid_task_files:
  "total (sn_taskCounts (fst (monitorTeam H team c paneIds w))) =
     (case readdir (join (stateRoot c team) [''tasks'']) (files w) of
        Inl e \<Rightarrow> 0
      | Inr taskFiles \<Rightarrow>
          length (filter (\<lambda>f. endsWith ''.json'' f \<and>
                            counted (readJsonSafe H (join (stateRoot c team) [''tasks'', f]) w))
                    taskFiles)) \<and>
   (\<forall>taskFiles. readdir (join (stateRoot c team) [''tasks'']) (files w) = Inr taskFiles \<longrightarrow>
      total (sn_taskCounts (fst (monitorTeam H team c paneIds w))) \<le> length taskFiles)"
proof -
  have eq: "total (scan_tasks H (stateRoot c team) w) =
     (case readdir (join (stateRoot c team) [''tasks'']) (files w) of
        Inl e \<Rightarrow> 0
      | Inr taskFiles \<Rightarrow>
          length (filter (\<lambda>f. endsWith ''.json'' f \<and>
                            counted (readJsonSafe H (join (stateRoot c team) [''tasks'', f]) w))
                    taskFiles))"
    by (simp add: scan_tasks_def total_fold_count total_no_tasks split: sum.splits)
  show ?thesis
    unfolding monitorTeam_counts eq
    by (auto split: sum.splits)
qed

theorem counts_cover_valid_task_files_witness:
  "total (sn_taskCounts (fst (monitorTeam demo_host ''t1'' ''/p'' [''%1'', ''%2'', ''%3'']
            watched_world))) \<le> length [''1.json'', ''2.json'']"
proof -
  have "readdir (join (stateRoot ''/p'' ''t1'') [''tasks'']) (files watched_world)
          = Inr [''1.json'', ''2.json'']"
    by code_simp
  with counts_cover_valid_task_files
         [of demo_host "''t1''" "''/p''" "[''%1'', ''%2'', ''%3'']" watched_world]
  show ?thesis by blast
qed

text \<open>
  The claim as stated fails: a tasks directory with the two files \<^verbatim>\<open>1.json\<close>
  (truncated to \<^verbatim>\<open>{\<close>) and \<^verbatim>\<open>2.json\<close> (completed) gives counts that sum to 1.
\<close>

theorem task_counts_counterexample:
  "readdir (join (stateRoot ''/p'' ''t1'') [''tasks'']) (files watched_world)
     = Inr [''1.json'', ''2.json''] \<and>
   total (sn_taskCounts (fst (monitorTeam demo_host ''t1'' ''/p'' [''%1'', ''%2'', ''%3'']
            watched_world))) = 1"
  by code_simp

text \<open>
  C4. \<^verbatim>\<open>createTeamSession\<close> names the session after the sanitized team name,
  \<^verbatim>\<open>resumeTeam\<close> probes for the name built from the raw team name. For the team
  \<^verbatim>\<open>my team\<close> the session is created as \<^verbatim>\<open>omc-team-myteam\<close> and is alive, the
  configuration is readable, and \<^verbatim>\<open>resumeTeam\<close> still finds nothing.
\<close>

theorem resumeTeam_misses_sanitized_session:
  "fst (createTeamSession ''my team'' 0 ''/p'' configured_world)
     = Inr \<lparr>sessionName = ''omc-team-myteam'', leaderPaneId = ''%0'', workerPaneIds = []\<rparr> \<and>
   has_session ''omc-team-myteam''
     (mux (snd (createTeamSession ''my team'' 0 ''/p'' configured_world))) \<and>
   truthy (readJsonSafe demo_host (join (stateRoot ''/p'' ''my team'') [''config.json''])
             (snd (createTeamSession ''my team'' 0 ''/p'' configured_world))) \<and>
   \<not> has_session (''omc-team-'' @ ''my team'')
     (mux (snd (createTeamSession ''my team'' 0 ''/p'' configured_world))) \<and>
   fst (resumeTeam demo_host ''my team'' ''/p''
          (snd (createTeamSession ''my team'' 0 ''/p'' configured_world))) = Inr None"
  by code_simp

text \<open>
  C8. On a consistent tmux server where the session name is free and the window has
  room for \<open>N\<close> splits (every split succeeds and yields a fresh pane),
  \<^verbatim>\<open>createTeamSession\<close> returns exactly \<open>N\<close> worker panes and one leader pane, all
  \<open>N + 1\<close> identifiers distinct. The identifiers are pane identifiers: they are
  exactly the panes that tmux lists for the new session afterwards, each of them
  belongs to that session, and none of them was a pane of the server before.
\<close>

theorem createTeamSession_panes:
  assumes "wf_tmux (mux w)" and "sanitizeName team = Inr clean"
    and "map_of (sessions (mux w)) (''omc-team-'' @ clean) = None"
    and "N \<le> room (mux w)"
  shows "\<exists>ses w'. createTeamSession team N c w = (Inr ses, w') \<and>
           sessionName ses = ''omc-team-'' @ clean \<and>
           length (workerPaneIds ses) = N \<and>
           distinct (leaderPaneId ses # workerPaneIds ses) \<and>
           (\<exists>listed. list_panes (sessionName ses) (mux w') = Inr listed \<and>
                      set listed = set (leaderPaneId ses # workerPaneIds ses)) \<and>
           (\<forall>p \<in> set (leaderPaneId ses # workerPaneIds ses).
              map_of (panes (mux w')) p = Some (sessionName ses) \<and>
              p \<notin> fst ` set (panes (mux w)))"
proof -
  define sn where "sn = ''omc-team-'' @ clean"
  let ?n0 = "next_pane (mux w)"
  have s: "sn \<noteq> []" "hd sn \<noteq> CHR ''%''" by (simp_all add: sn_def)
  have absent: "map_of (sessions (mux w)) sn = None"
    using assms(3) by (simp only: sn_def)
  from new_session_inv [OF assms(1) absent]
  obtain t1 where ns: "new_session sn (mux w) = Inr t1" and ro: "room t1 = room (mux w)"
    and act: "map_of (sessions t1) sn = Some (pane_name ?n0)"
    and inv: "split_inv ?n0 sn 0 [] t1"
    by blast
  let ?w1 = "w\<lparr>mux := t1\<rparr>"
  have leader: "display_pane_id sn t1 = Inr (pane_name ?n0)"
    unfolding display_pane_id_def resolve_session [OF s] act by simp
  have inv1: "split_inv ?n0 sn 0 [] (mux ?w1)" using inv by simp
  have room1: "N \<le> room (mux ?w1)" using ro assms(4) by simp
  from split_loop_ok [OF inv1 room1 s]
  obtain w' where loop: "split_loop sn (pane_name ?n0) 0 N [] ?w1
                           = (Inr (map pane_name [?n0 + 1 ..< ?n0 + 1 + 0 + N]), w')"
    and final: "split_inv ?n0 sn (0 + N) (map pane_name [?n0 + 1 ..< ?n0 + 1 + 0 + N]) (mux w')"
    by blast
  let ?ws = "map pane_name [?n0 + 1 ..< ?n0 + 1 + 0 + N]"
  let ?ses = "\<lparr>sessionName = sn, leaderPaneId = pane_name ?n0, workerPaneIds = ?ws\<rparr>"
  have "createTeamSession team N c w
          = bind (on_mux (new_session sn)) (\<lambda>_.
            bind (ask_mux (display_pane_id sn)) (\<lambda>leader.
            bind (split_loop sn leader 0 N []) (\<lambda>ws.
              ret \<lparr>sessionName = sn, leaderPaneId = leader, workerPaneIds = ws\<rparr>))) w"
    unfolding createTeamSession_def assms(2) sn_def by (simp add: Let_def)
  also have "\<dots> = (Inr ?ses, w')"
    by (simp add: bind_def ret_def on_mux_def ask_mux_def ns leader loop del: upt_Suc)
  finally have run: "createTeamSession team N c w = (Inr ?ses, w')" .
  have ids: "pane_name ?n0 # ?ws = map pane_name [?n0 ..< ?n0 + 1 + 0 + N]"
    by (simp add: upt_conv_Cons del: upt_Suc)
  have ids_set: "set (pane_name ?n0 # ?ws) = pane_name ` {?n0 ..< ?n0 + 1 + N}"
    unfolding ids by (simp del: upt_Suc)
  have dist: "distinct (pane_name ?n0 # ?ws)"
    unfolding ids by (rule distinct_pane_names)
  from final have sess: "map_of (sessions (mux w')) sn \<noteq> None"
    and own: "fst ` {e \<in> set (panes (mux w')). snd e = sn} = pane_name ` {?n0 ..< ?n0 + 1 + N}"
    and mine: "\<forall>j \<in> {?n0 ..< ?n0 + 1 + N}. map_of (panes (mux w')) (pane_name j) = Some sn"
    by (simp_all add: split_inv_def)
  let ?listed = "map fst (filter (\<lambda>e. snd e = sn) (panes (mux w')))"
  from sess obtain a where "map_of (sessions (mux w')) sn = Some a" by blast
  then have lp: "list_panes sn (mux w') = Inr ?listed"
    using s by (simp add: list_panes_def resolve_session)
  have "set ?listed = fst ` {e \<in> set (panes (mux w')). snd e = sn}"
    by simp
  then have listed: "set ?listed = set (pane_name ?n0 # ?ws)"
    unfolding own ids_set .
  from assms(1) have fresh: "\<forall>k. ?n0 \<le> k \<longrightarrow> pane_name k \<notin> fst ` set (panes (mux w))"
    by (simp add: wf_tmux_def)
  have each: "map_of (panes (mux w')) p = Some sn \<and> p \<notin> fst ` set (panes (mux w))"
    if "p \<in> set (pane_name ?n0 # ?ws)" for p
  proof -
    from that obtain j where j: "p = pane_name j" "j \<in> {?n0 ..< ?n0 + 1 + N}"
      unfolding ids_set by blast
    from j(2) mine have "map_of (panes (mux w')) (pane_name j) = Some sn" by blast
    moreover from j(2) have "?n0 \<le> j" by simp
    with fresh have "pane_name j \<notin> fst ` set (panes (mux w))" by blast
    ultimately show ?thesis unfolding j(1) by blast
  qed
  have "sessionName ?ses = sn \<and>
        length (workerPaneIds ?ses) = N \<and>
        distinct (leaderPaneId ?ses # workerPaneIds ?ses) \<and>
        (\<exists>listed. list_panes (sessionName ?ses) (mux w') = Inr listed \<and>
                   set listed = set (leaderPaneId ?ses # workerPaneIds ?ses)) \<and>
        (\<forall>p \<in> set (leaderPaneId ?ses # workerPaneIds ?ses).
           map_of (panes (mux w')) p = Some (sessionName ?ses) \<and>
           p \<notin> fst ` set (panes (mux w)))"
    using dist lp listed each by (simp del: upt_Suc set_map list.set)
  with run show ?thesis unfolding sn_def by blast
qed

theorem createTeamSession_panes_witness:
  "\<exists>ses w'. createTeamSession ''my team'' 3 ''/p'' watched_world = (Inr ses, w') \<and>
      sessionName ses = ''omc-team-myteam'' \<and>
      length (workerPaneIds ses) = 3 \<and>
      distinct (leaderPaneId ses # workerPaneIds ses) \<and>
      (\<exists>listed. list_panes (sessionName ses) (mux w') = Inr listed \<and>
                 set listed = set (leaderPaneId ses # workerPaneIds ses)) \<and>
      (\<forall>p \<in> set (leaderPaneId ses # workerPaneIds ses).
         map_of (panes (mux w')) p = Some (sessionName ses) \<and>
         p \<notin> {''%0'', ''%1'', ''%2'', ''%3''}) \<and>
      ses = \<lparr>sessionName = ''omc-team-myteam'', leaderPaneId = ''%4'',
              workerPaneIds = [''%5'', ''%6'', ''%7'']\<rparr> \<and>
      list_panes ''omc-team-myteam'' (mux w') = Inr [''%4'', ''%5'', ''%6'', ''%7'']"
proof -
  have names: "pane_name 0 = ''%0''" "pane_name 1 = ''%1''" "pane_name 2 = ''%2''"
    "pane_name 3 = ''%3''"
    by code_simp+
  have old: "fst ` set (panes (mux watched_world)) = {''%0'', ''%1'', ''%2'', ''%3''}"
    by (simp add: watched_world_def team_tmux_def)
  have ahead: "pane_name k \<notin> fst ` set (panes (mux watched_world))"
    if "next_pane (mux watched_world) \<le> k" for k
  proof -
    from that have k: "k \<noteq> 0" "k \<noteq> 1" "k \<noteq> 2" "k \<noteq> 3"
      by (simp_all add: watched_world_def team_tmux_def)
    have "pane_name k \<noteq> pane_name 0" "pane_name k \<noteq> pane_name 1"
      "pane_name k \<noteq> pane_name 2" "pane_name k \<noteq> pane_name 3"
      using k pane_name_inj by blast+
    then show ?thesis unfolding old names by simp
  qed
  have live: "\<forall>e \<in> set (panes (mux watched_world)).
                map_of (sessions (mux watched_world)) (snd e) \<noteq> None"
    by (simp add: watched_world_def team_tmux_def)
  have wf: "wf_tmux (mux watched_world)"
    unfolding wf_tmux_def using live ahead by blast
  have clean: "sanitizeName ''my team'' = Inr ''myteam''"
    by (simp add: sanitizeName_def valid_char_def Let_def)
  have absent: "map_of (sessions (mux watched_world)) (''omc-team-'' @ ''myteam'') = None"
    by (simp add: watched_world_def team_tmux_def)
  have room: "3 \<le> room (mux watched_world)"
    by (simp add: watched_world_def team_tmux_def)
  have ran: "fst (createTeamSession ''my team'' 3 ''/p'' watched_world)
               = Inr \<lparr>sessionName = ''omc-team-myteam'', leaderPaneId = ''%4'',
                      workerPaneIds = [''%5'', ''%6'', ''%7'']\<rparr>"
    by code_simp
  have listed: "list_panes ''omc-team-myteam''
                  (mux (snd (createTeamSession ''my team'' 3 ''/p'' watched_world)))
                  = Inr [''%4'', ''%5'', ''%6'', ''%7'']"
    by code_simp
  from createTeamSession_panes [OF wf clean absent room, of "''/p''"] ran listed
  show ?thesis unfolding old by auto
qed

text \<open>
  C7 (as amended). Whatever the timeout and whatever the workers acknowledge: if the
  shutdown-request marker can be written (no file stands in the way of the state
  directory, and \<^verbatim>\<open>shutdown.json\<close> is not a directory), the persisted worker count
  is a valid array length, the state directory is not the file-system root and the
  session argument is a session name rather than a pane identifier \<^verbatim>\<open>%n\<close>, then
  \<^verbatim>\<open>shutdownTeam\<close> returns normally, the session is gone, the state directory is gone,
  and the clock has advanced by less than the timeout plus one polling interval of
  500 ms.
\<close>

theorem shutdownTeam_returns:
  assumes marker: "creatable (files w) (join (stateRoot c team) [''shutdown.json''])"
    and count: "ack_count H (readJsonSafe H (join (stateRoot c team) [''config.json'']) w)
                  \<le> 4294967295"
    and root: "stateRoot c team \<noteq> []"
    and sess: "\<not> (sName \<noteq> [] \<and> hd sName = CHR ''%'')"
  shows "\<exists>w'. shutdownTeam H team sName c timeoutMs w = (Inr (), w') \<and>
           \<not> has_session sName (mux w') \<and>
           (\<forall>q. is_under (stateRoot c team) q \<longrightarrow> lookup (files w') q = None) \<and>
           clock w \<le> clock w' \<and>
           (clock w' = clock w \<or> clock w' < clock w + timeoutMs + 500)"
proof -
  define rt where "rt = stateRoot c team"
  let ?marker = "join rt [''shutdown.json'']"
  let ?cfg = "join rt [''config.json'']"
  let ?doc = "JObj [(''requestedAt'', JStr (toISOString H (clock w))), (''teamName'', JStr team)]"
  have m: "?marker = rt @ [''shutdown.json'']" and c: "?cfg = rt @ [''config.json'']"
    by (simp_all add: join_plain plain_def)
  from writeJson_ok [OF marker [folded rt_def], of H ?doc]
  obtain w1 where wj: "writeJson H ?marker ?doc w = (Inr (), w1)"
    and mux1: "mux w1 = mux w" and clock1: "clock w1 = clock w"
    and look1: "\<forall>q. lookup (files w1) q =
                  (if q = ?marker then Some (File (JSON_stringify H ?doc))
                   else if q \<in> set (ancestors (butlast ?marker)) \<and> lookup (files w) q = None
                     then Some Dir
                   else lookup (files w) q)"
    by blast
  have "?cfg \<notin> set (ancestors (butlast ?marker))"
  proof
    assume "?cfg \<in> set (ancestors (butlast ?marker))"
    then have "length ?cfg \<le> length (butlast ?marker)" by (rule ancestors_shorter)
    then show False unfolding m c by simp
  qed
  moreover have "?cfg \<noteq> ?marker" unfolding m c by simp
  ultimately have "lookup (files w1) ?cfg = lookup (files w) ?cfg"
    using look1 by simp
  then have cfg: "readJsonSafe H ?cfg w1 = readJsonSafe H ?cfg w"
    by (rule readJsonSafe_cong)
  define n where "n = ack_count H (readJsonSafe H ?cfg w)"
  have n: "\<not> n > 4294967295" using count by (simp add: n_def rt_def)
  obtain unacked w2 where loop:
    "ack_loop H rt (clock w + timeoutMs) (map workerName [0..<n]) w1 = (unacked, w2)"
    by (metis surj_pair)
  from ack_loop_frame [OF loop]
  have mux2: "mux w2 = mux w1" and clock2: "clock w1 \<le> clock w2"
    and bound: "clock w2 = clock w1 \<or> clock w2 < clock w + timeoutMs + 500"
    by simp_all
  define w3 where "w3 = killTeamSession sName w2"
  define w4 where "w4 = w3\<lparr>files := rm rt (files w3)\<rparr>"
  have run: "shutdownTeam H team sName c timeoutMs w = (Inr (), w4)"
    unfolding shutdownTeam_def rt_def [symmetric] Let_def bind_def
    using n by (simp add: wj clock1 cfg n_def [symmetric] loop w3_def w4_def)
  have gone: "\<not> has_session sName (mux w4)"
    unfolding w4_def w3_def using kill_gone [OF sess, of w2] by simp
  have removed: "\<forall>q. is_under rt q \<longrightarrow> lookup (files w4) q = None"
  proof (intro allI impI)
    fix q assume u: "is_under rt q"
    with root have "q \<noteq> []" by (auto simp: is_under_def rt_def)
    with u show "lookup (files w4) q = None"
      by (simp add: w4_def lookup_rm)
  qed
  have clock4: "clock w4 = clock w2"
    unfolding w4_def w3_def using killTeamSession_frame [of sName w2] by simp
  from run gone removed clock4 clock1 clock2 bound show ?thesis
    unfolding rt_def by auto
qed

theorem shutdownTeam_returns_witness:
  "\<exists>w'. shutdownTeam demo_host ''t1'' ''omc-team-t1'' ''/p'' 1000 running_world = (Inr (), w') \<and>
      \<not> has_session ''omc-team-t1'' (mux w') \<and>
      lookup (files w') [''p'', ''.omc'', ''state'', ''team'', ''t1'', ''config.json''] = None \<and>
      clock w' < 1500"
proof -
  have marker: "creatable (files running_world)
                  (join (stateRoot ''/p'' ''t1'') [''shutdown.json''])"
    by code_simp
  have "ack_count demo_host
          (readJsonSafe demo_host (join (stateRoot ''/p'' ''t1'') [''config.json''])
             running_world) = 2"
    by code_simp
  then have count: "ack_count demo_host
          (readJsonSafe demo_host (join (stateRoot ''/p'' ''t1'') [''config.json''])
             running_world) \<le> 4294967295"
    by simp
  have root: "stateRoot ''/p'' ''t1'' \<noteq> []"
    by code_simp
  have sess: "\<not> (''omc-team-t1'' \<noteq> [] \<and> hd ''omc-team-t1'' = CHR ''%'')"
    by simp
  have under: "is_under (stateRoot ''/p'' ''t1'')
                 [''p'', ''.omc'', ''state'', ''team'', ''t1'', ''config.json'']"
    by code_simp
  have now: "clock running_world = 0"
    by (simp add: running_world_def)
  from shutdownTeam_returns [OF marker count root sess, of 1000] under now
  show ?thesis by fastforce
qed

text \<open>
  The claim as stated fails: with a regular file at \<^verbatim>\<open>/p/.omc\<close> the marker cannot be
  written, \<^verbatim>\<open>shutdownTeam\<close> throws, and the session is still alive.
\<close>

theorem shutdownTeam_throws_counterexample:
  "fst (shutdownTeam demo_host ''t1'' ''omc-team-t1'' ''/p'' 1000 blocked_world)
     = Inl (ENOTDIR [''p'', ''.omc'', ''state'', ''team'', ''t1'']) \<and>
   has_session ''omc-team-t1''
     (mux (snd (shutdownTeam demo_host ''t1'' ''omc-team-t1'' ''/p'' 1000 blocked_world)))"
proof -
  have run: "shutdownTeam demo_host ''t1'' ''omc-team-t1'' ''/p'' 1000 blocked_world
          = (Inl (ENOTDIR [''p'', ''.omc'', ''state'', ''team'', ''t1'']), blocked_world)"
    unfolding shutdownTeam_def Let_def bind_def blocked_write by simp
  have alive: "has_session ''omc-team-t1'' (mux blocked_world)"
    by code_simp
  from run alive show ?thesis by simp
qed

text \<open>
  C10 (as amended). If the task file of the given task id is missing or unparsable,
  the worker name is one path segment and the worker's inbox can be created (no file
  stands in the way of its directory, and \<^verbatim>\<open>inbox.md\<close> is not a directory), then
  \<^verbatim>\<open>assignTask\<close> completes without error, leaves every entry of the tasks directory as
  it was, appends to the worker's \<^verbatim>\<open>inbox.md\<close> the block that consists of two line
  feeds, a rule \<^verbatim>\<open>---\<close>, the heading \<^verbatim>\<open>## New Task Assignment\<close>, the line
  \<^verbatim>\<open>Task ID: {id}\<close> and the line that points to the task file, and types the trigger
  \<^verbatim>\<open>new-task:{id}\<close> (cut at 200 characters) followed by Enter into the pane where the
  pane exists.
\<close>

theorem assignTask_missing_task:
  assumes missing:
      "lookup (files w) (join (stateRoot c team) [''tasks'', taskId @ ''.json'']) = None \<or>
       (\<exists>content. lookup (files w) (join (stateRoot c team) [''tasks'', taskId @ ''.json''])
                     = Some (File content) \<and> JSON_parse H content = None)"
    and target: "plain target"
    and inbox: "creatable (files w) (join (stateRoot c team) [''workers'', target, ''inbox.md''])"
  shows "\<exists>w'. assignTask H team taskId target pane sName c w = (Inr (), w') \<and>
           (\<forall>q. is_under (join (stateRoot c team) [''tasks'']) q \<longrightarrow>
                  lookup (files w') q = lookup (files w) q) \<and>
           lookup (files w') (join (stateRoot c team) [''workers'', target, ''inbox.md''])
             = Some (File ((case lookup (files w)
                                   (join (stateRoot c team) [''workers'', target, ''inbox.md''])
                              of Some (File old) \<Rightarrow> old | _ \<Rightarrow> [])
                           @ ([CHR 0x0A, CHR 0x0A] @ ''---'' @ [CHR 0x0A]
                             @ ''## New Task Assignment'' @ [CHR 0x0A]
                             @ ''Task ID: '' @ taskId @ [CHR 0x0A]
                             @ ''Claim and execute task from: .omc/state/team/'' @ team
                             @ ''/tasks/'' @ taskId @ ''.json'' @ [CHR 0x0A]))) \<and>
           (\<forall>s p. resolve (mux w) pane = Some (s, p) \<longrightarrow>
              typed (mux w') = typed (mux w)
                 @ [(p, Lit (take 200 (''new-task:'' @ taskId))), (p, KeyEnter)])"
proof -
  define rt where "rt = stateRoot c team"
  define taskPath where "taskPath = join rt [''tasks'', taskId @ ''.json'']"
  define inboxPath where "inboxPath = join rt [''workers'', target, ''inbox.md'']"
  have ib: "inboxPath = rt @ [''workers'', target, ''inbox.md'']"
    unfolding inboxPath_def using target by (intro join3_plain) (simp_all add: plain_def)
  have bl: "butlast inboxPath = rt @ [''workers'', target]"
    unfolding ib by (simp add: butlast_append)
  have tk: "join rt [''tasks''] = rt @ [''tasks'']"
    by (simp add: join_plain plain_def)
  have rd: "readJsonSafe H taskPath w = JNull"
    using missing unfolding taskPath_def rt_def by (rule readJsonSafe_unparsable)
  have claim: "claim_task H taskPath target w = (Inr (), w)"
    by (simp add: claim_task_def rd truthy_def ret_def)
  have writable: "creatable (files w) inboxPath"
    using inbox unfolding inboxPath_def rt_def .
  from append_ok [OF writable, of "assignment_msg team taskId"]
  obtain f1 f2 where mk: "mkdir (butlast inboxPath) (files w) = Inr f1"
    and ap: "appendFile inboxPath (assignment_msg team taskId) f1 = Inr f2"
    and look: "\<forall>q. lookup f2 q =
                  (if q = inboxPath
                   then Some (File ((case lookup (files w) inboxPath of
                                       Some (File old) \<Rightarrow> old | _ \<Rightarrow> [])
                                    @ assignment_msg team taskId))
                   else if q \<in> set (ancestors (butlast inboxPath)) \<and> lookup (files w) q = None
                     then Some Dir
                   else lookup (files w) q)"
    by blast
  define w' where "w' = snd (sendToWorker sName pane (''new-task:'' @ taskId) (w\<lparr>files := f2\<rparr>))"
  have run: "assignTask H team taskId target pane sName c w = (Inr (), w')"
    unfolding assignTask_def rt_def [symmetric] Let_def
      taskPath_def [symmetric] inboxPath_def [symmetric]
    by (simp add: bind_def claim on_files_def join_dotdot mk ap w'_def)
  have files': "files w' = f2"
    unfolding w'_def using sendToWorker_files [of sName pane "''new-task:'' @ taskId" "w\<lparr>files := f2\<rparr>"]
    by simp
  have tasks_same: "lookup (files w') q = lookup (files w) q" if u: "is_under (rt @ [''tasks'']) q" for q
  proof -
    have "q \<noteq> inboxPath"
    proof
      assume "q = inboxPath"
      with u have "is_under (rt @ [''tasks'']) (rt @ ''workers'' # [target, ''inbox.md''])"
        by (simp add: ib)
      then show False by (simp only: is_under_branch) simp
    qed
    moreover have "q \<notin> set (ancestors (butlast inboxPath))"
    proof
      assume "q \<in> set (ancestors (butlast inboxPath))"
      then have "q \<in> set (ancestors (rt @ ''workers'' # [target]))"
        by (simp add: bl)
      from under_sibling_ancestor [OF u this] show False by simp
    qed
    ultimately show ?thesis using look by (simp add: files')
  qed
  have inbox': "lookup (files w') inboxPath
             = Some (File ((case lookup (files w) inboxPath of Some (File old) \<Rightarrow> old | _ \<Rightarrow> [])
                           @ assignment_msg team taskId))"
    using look by (simp add: files')
  have trig: "typed (mux w') = typed (mux w)
                 @ [(p, Lit (take 200 (''new-task:'' @ taskId))), (p, KeyEnter)]"
    if "resolve (mux w) pane = Some (s, p)" for s p
  proof -
    from that have "resolve (mux (w\<lparr>files := f2\<rparr>)) pane = Some (s, p)" by simp
    from sendToWorker_typed [OF this, of sName "''new-task:'' @ taskId"]
    show ?thesis by (simp add: w'_def)
  qed
  note block = inbox' [unfolded assignment_msg_def]
  from run tasks_same block trig show ?thesis
    unfolding rt_def [symmetric] inboxPath_def [symmetric] tk by blast
qed


theorem assignTask_missing_task_witness:
  "\<exists>w'. assignTask demo_host ''t1'' ''1'' ''worker-2'' ''%2'' ''omc-team-t1'' ''/p'' watched_world
           = (Inr (), w') \<and>
      lookup (files w') (team_root @ [''tasks'', ''1.json'']) = Some (File ''{'') \<and>
      lookup (files w') (team_root @ [''workers'', ''worker-2'', ''inbox.md''])
        = Some (File ([CHR 0x0A, CHR 0x0A] @ ''---'' @ [CHR 0x0A]
                        @ ''## New Task Assignment'' @ [CHR 0x0A]
                        @ ''Task ID: 1'' @ [CHR 0x0A]
                        @ ''Claim and execute task from: .omc/state/team/t1/tasks/1.json''
                        @ [CHR 0x0A])) \<and>
      typed (mux w') = [(''%2'', Lit ''new-task:1''), (''%2'', KeyEnter)]"
proof -
  have root: "stateRoot ''/p'' ''t1'' = team_root"
    by code_simp
  have taskPath: "join team_root [''tasks'', ''1'' @ ''.json''] = team_root @ [''tasks'', ''1.json'']"
    by code_simp
  have inboxPath: "join team_root [''workers'', ''worker-2'', ''inbox.md'']
                     = team_root @ [''workers'', ''worker-2'', ''inbox.md'']"
    by code_simp
  have tasksDir: "join team_root [''tasks''] = team_root @ [''tasks'']"
    by code_simp
  have old_task: "lookup (files watched_world) (team_root @ [''tasks'', ''1.json'']) = Some (File ''{'')"
    by code_simp
  have unparsable: "JSON_parse demo_host ''{'' = None"
    by code_simp
  have missing:
    "lookup (files watched_world) (join (stateRoot ''/p'' ''t1'') [''tasks'', ''1'' @ ''.json'']) = None \<or>
     (\<exists>content. lookup (files watched_world)
                   (join (stateRoot ''/p'' ''t1'') [''tasks'', ''1'' @ ''.json''])
                   = Some (File content) \<and> JSON_parse demo_host content = None)"
    unfolding root taskPath using old_task unparsable by blast
  have target: "plain ''worker-2''"
    by (simp add: plain_def)
  have inbox: "creatable (files watched_world)
                 (join (stateRoot ''/p'' ''t1'') [''workers'', ''worker-2'', ''inbox.md''])"
    by code_simp
  have no_inbox: "lookup (files watched_world) (team_root @ [''workers'', ''worker-2'', ''inbox.md'']) = None"
    by code_simp
  have under: "is_under (team_root @ [''tasks'']) (team_root @ [''tasks'', ''1.json''])"
    by code_simp
  have pane: "resolve (mux watched_world) ''%2'' = Some (''omc-team-t1'', ''%2'')"
    by code_simp
  have quiet: "typed (mux watched_world) = []"
    by (simp add: watched_world_def team_tmux_def)
  from assignTask_missing_task [OF missing target inbox, of "''%2''" "''omc-team-t1''"]
  obtain w' where run: "assignTask demo_host ''t1'' ''1'' ''worker-2'' ''%2'' ''omc-team-t1'' ''/p''
                          watched_world = (Inr (), w')"
    and same: "\<forall>q. is_under (team_root @ [''tasks'']) q \<longrightarrow>
                  lookup (files w') q = lookup (files watched_world) q"
    and box: "lookup (files w') (team_root @ [''workers'', ''worker-2'', ''inbox.md''])
               = Some (File ((case lookup (files watched_world)
                                    (team_root @ [''workers'', ''worker-2'', ''inbox.md''])
                              of Some (File old) \<Rightarrow> old | _ \<Rightarrow> [])
                           @ ([CHR 0x0A, CHR 0x0A] @ ''---'' @ [CHR 0x0A]
                              @ ''## New Task Assignment'' @ [CHR 0x0A]
                              @ ''Task ID: '' @ ''1'' @ [CHR 0x0A]
                              @ ''Claim and execute task from: .omc/state/team/'' @ ''t1''
                              @ ''/tasks/'' @ ''1'' @ ''.json'' @ [CHR 0x0A])))"
    and trig: "\<forall>s p. resolve (mux watched_world) ''%2'' = Some (s, p) \<longrightarrow>
              typed (mux w') = typed (mux watched_world)
                 @ [(p, Lit (take 200 (''new-task:'' @ ''1''))), (p, KeyEnter)]"
    unfolding root inboxPath tasksDir by blast
  from same under old_task
  have a: "lookup (files w') (team_root @ [''tasks'', ''1.json'']) = Some (File ''{'')"
    by simp
  from box no_inbox
  have b: "lookup (files w') (team_root @ [''workers'', ''worker-2'', ''inbox.md''])
             = Some (File ([CHR 0x0A, CHR 0x0A] @ ''---'' @ [CHR 0x0A]
                        @ ''## New Task Assignment'' @ [CHR 0x0A]
                        @ ''Task ID: 1'' @ [CHR 0x0A]
                        @ ''Claim and execute task from: .omc/state/team/t1/tasks/1.json''
                        @ [CHR 0x0A]))"
    by simp
  from trig pane quiet
  have c: "typed (mux w') = [(''%2'', Lit ''new-task:1''), (''%2'', KeyEnter)]"
    by simp
  from run a b c show ?thesis by blast
qed

text \<open>
  The claim as stated fails: with a regular file at \<^verbatim>\<open>/p/.omc\<close> the task file
  \<^verbatim>\<open>1.json\<close> of the team is missing, and \<^verbatim>\<open>assignTask\<close> throws when it creates the
  directory of the inbox; nothing is appended and nothing is typed into the pane.
\<close>

theorem assignTask_throws_counterexample:
  "lookup (files blocked_world) (join (stateRoot ''/p'' ''t1'') [''tasks'', ''1'' @ ''.json''])
     = None \<and>
   fst (assignTask demo_host ''t1'' ''1'' ''worker-1'' ''%1'' ''omc-team-t1'' ''/p'' blocked_world)
     = Inl (ENOTDIR [''p'', ''.omc'', ''state'', ''team'', ''t1'', ''workers'', ''worker-1'']) \<and>
   lookup (files (snd (assignTask demo_host ''t1'' ''1'' ''worker-1'' ''%1'' ''omc-team-t1'' ''/p''
                         blocked_world)))
          (join (stateRoot ''/p'' ''t1'') [''workers'', ''worker-1'', ''inbox.md'']) = None \<and>
   resolve (mux blocked_world) ''%1'' = Some (''omc-team-t1'', ''%1'') \<and>
   typed (mux (snd (assignTask demo_host ''t1'' ''1'' ''worker-1'' ''%1'' ''omc-team-t1'' ''/p''
                      blocked_world))) = []"
  by code_simp

text \<open>
  C3 (as amended). \<^verbatim>\<open>monitorTeam\<close> changes no file. \<^verbatim>\<open>assignTask\<close>, on a task file
  that holds an object, writes the object back with status in_progress and the new
  owner, whatever status it held: from pending this is the forward step, from
  completed or failed it re-opens the task. The task loop of \<^verbatim>\<open>startTeam\<close> writes
  every record with status pending. No core operation writes completed or failed.
\<close>

theorem task_status_writes:
  "files (snd (monitorTeam H team c paneIds w)) = files w \<and>
   (\<forall>kvs w'.
      readJsonSafe H (join (stateRoot c team) [''tasks'', taskId @ ''.json'']) w = JObj kvs \<and>
      plain target \<and> CHR ''/'' \<notin> set taskId \<and>
      assignTask H team taskId target pane sName c w = (Inr (), w') \<longrightarrow>
      lookup (files w') (join (stateRoot c team) [''tasks'', taskId @ ''.json''])
        = Some (File (JSON_stringify H (claimed H (clock w) target kvs))) \<and>
      get_prop ''status'' (claimed H (clock w) target kvs) = Some (JStr ''in_progress'') \<and>
      get_prop ''owner'' (claimed H (clock w) target kvs) = Some (JStr target)) \<and>
   (\<forall>i ts w'.
      write_tasks H (stateRoot c team) i ts w = (Inr (), w') \<longrightarrow>
      (\<forall>j < length ts.
         lookup (files w') (join (stateRoot c team) [''tasks'', String (i + j + 1) @ ''.json''])
           = Some (File (JSON_stringify H
                           (task_json H (clock w) (String (i + j + 1)) (ts ! j)))) \<and>
         get_prop ''status'' (task_json H (clock w) (String (i + j + 1)) (ts ! j))
           = Some (JStr ''pending'')))"
proof (intro conjI allI impI)
  show "files (snd (monitorTeam H team c paneIds w)) = files w"
    by (rule monitorTeam_files)
next
  fix kvs w'
  assume a: "readJsonSafe H (join (stateRoot c team) [''tasks'', taskId @ ''.json'']) w = JObj kvs \<and>
      plain target \<and> CHR ''/'' \<notin> set taskId \<and>
      assignTask H team taskId target pane sName c w = (Inr (), w')"
  then have task: "readJsonSafe H (join (stateRoot c team) [''tasks'', taskId @ ''.json'']) w
                     = JObj kvs"
    and target: "plain target" and tid: "CHR ''/'' \<notin> set taskId"
    and run: "assignTask H team taskId target pane sName c w = (Inr (), w')"
    by simp_all
  show "lookup (files w') (join (stateRoot c team) [''tasks'', taskId @ ''.json''])
        = Some (File (JSON_stringify H (claimed H (clock w) target kvs)))"
    by (rule assignTask_reassigns [OF task target tid run])
  show "get_prop ''status'' (claimed H (clock w) target kvs) = Some (JStr ''in_progress'')"
    using claimed_fields by blast
  show "get_prop ''owner'' (claimed H (clock w) target kvs) = Some (JStr target)"
    using claimed_fields by blast
next
  fix i ts w' j
  assume run: "write_tasks H (stateRoot c team) i ts w = (Inr (), w')" and j: "j < length ts"
  from write_tasks_files [OF run] j
  show "lookup (files w') (join (stateRoot c team) [''tasks'', String (i + j + 1) @ ''.json''])
           = Some (File (JSON_stringify H
                           (task_json H (clock w) (String (i + j + 1)) (ts ! j))))"
    by blast
  show "get_prop ''status'' (task_json H (clock w) (String (i + j + 1)) (ts ! j))
           = Some (JStr ''pending'')"
    by (simp add: task_json_def get_prop_def)
qed

theorem task_status_writes_witness:
  "lookup (files (snd (assignTask demo_host ''t1'' ''2'' ''worker-2'' ''%2'' ''omc-team-t1'' ''/p''
                         running_world)))
     (join (stateRoot ''/p'' ''t1'') [''tasks'', ''2'' @ ''.json''])
     = Some (File reopened_task_text)"
proof -
  let ?kvs = "[(''id'', JStr ''2''), (''status'', JStr ''completed''),
               (''owner'', JStr ''worker-1'')]"
  have task: "readJsonSafe demo_host (join (stateRoot ''/p'' ''t1'') [''tasks'', ''2'' @ ''.json''])
               running_world = JObj ?kvs"
    by code_simp
  have target: "plain ''worker-2''" by (simp add: plain_def)
  have tid: "CHR ''/'' \<notin> set ''2''" by simp
  have "fst (assignTask demo_host ''t1'' ''2'' ''worker-2'' ''%2'' ''omc-team-t1'' ''/p''
               running_world) = Inr ()"
    by code_simp
  then have run: "assignTask demo_host ''t1'' ''2'' ''worker-2'' ''%2'' ''omc-team-t1'' ''/p''
                    running_world
                  = (Inr (), snd (assignTask demo_host ''t1'' ''2'' ''worker-2'' ''%2''
                                    ''omc-team-t1'' ''/p'' running_world))"
    by (metis prod.collapse)
  have rendered: "JSON_stringify demo_host (claimed demo_host (clock running_world) ''worker-2'' ?kvs)
                = reopened_task_text"
    by code_simp
  from task_status_writes [of demo_host "''t1''" "''/p''" "[]" running_world "''2''"
                              "''worker-2''" "''%2''" "''omc-team-t1''"]
  have "lookup (files (snd (assignTask demo_host ''t1'' ''2'' ''worker-2'' ''%2'' ''omc-team-t1''
                              ''/p'' running_world)))
          (join (stateRoot ''/p'' ''t1'') [''tasks'', ''2'' @ ''.json''])
        = Some (File (JSON_stringify demo_host
                        (claimed demo_host (clock running_world) ''worker-2'' ?kvs)))"
    using task target tid run by blast
  then show ?thesis by (simp only: rendered)
qed

text \<open>
  The claim as stated fails: task 2 is completed, \<^verbatim>\<open>assignTask\<close> gives it to worker-2,
  and the record is in_progress again.
\<close>

theorem task_reopened_counterexample:
  "get_prop ''status''
     (readJsonSafe demo_host (team_root @ [''tasks'', ''2.json'']) running_world)
     = Some (JStr ''completed'') \<and>
   fst (assignTask demo_host ''t1'' ''2'' ''worker-2'' ''%2'' ''omc-team-t1'' ''/p'' running_world)
     = Inr () \<and>
   get_prop ''status''
     (readJsonSafe demo_host (team_root @ [''tasks'', ''2.json''])
        (snd (assignTask demo_host ''t1'' ''2'' ''worker-2'' ''%2'' ''omc-team-t1'' ''/p''
                running_world)))
     = Some (JStr ''in_progress'')"
  by code_simp

end
